theory Spec2Isabelle
  imports Complex_Main "HOL-Library.Multiset" "HOL-Library.AList"
begin

section \<open>Attributes (graph.go)\<close>

text \<open>
  \<^verbatim>\<open>encoding.Attribute\<close> (\<^verbatim>\<open>dot.Attribute\<close> in the older files) is a struct of two
  strings; \<^verbatim>\<open>type Attributes []encoding.Attribute\<close> is a slice of them.
\<close>

record Attribute =
  Key :: string
  Value :: string

type_synonym Attributes = "Attribute list"

text \<open>
  \<^verbatim>\<open>func (a Attributes) Get(attr string) string\<close>: the value of the first pair whose key
  is \<open>attr\<close>, the empty string when the loop ends without finding one.
\<close>

fun Get :: "Attributes \<Rightarrow> string \<Rightarrow> string" where
  "Get [] attr = ''''"
| "Get (kv # a) attr = (if Key kv = attr then Value kv else Get a attr)"

text \<open>
  The index at which \<^verbatim>\<open>for i, kv := range *a { if kv.Key == attr {...; return} }\<close> stops:
  the first position whose key is \<open>attr\<close>, or \<open>None\<close> when the loop runs to its end.
\<close>

fun first_index :: "Attributes \<Rightarrow> string \<Rightarrow> nat option" where
  "first_index [] attr = None"
| "first_index (kv # a) attr =
     (if Key kv = attr then Some 0 else map_option Suc (first_index a attr))"

text \<open>
  \<^verbatim>\<open>func (a *Attributes) Set(attr, value string)\<close> of graph.go, the body of
  \<^verbatim>\<open>SetAttribute\<close> in the later files. At the first index \<open>i\<close> whose key is \<open>attr\<close>:
  a non-empty value overwrites the \<open>Value\<close> field in place; the empty value runs
  \<^verbatim>\<open>(*a)[i], *a = (*a)[len(*a)-1], (*a)[:len(*a)-1]\<close>, which stores the last pair at \<open>i\<close>
  and drops the last position. When no key matches, the pair is appended, whatever
  the value.
\<close>

definition Set :: "Attributes \<Rightarrow> string \<Rightarrow> string \<Rightarrow> Attributes" where
  "Set a attr value =
     (case first_index a attr of
        Some i \<Rightarrow>
          (if value \<noteq> '''' then a[i := (a ! i)\<lparr>Value := value\<rparr>]
           else butlast (a[i := last a]))
      | None \<Rightarrow> a @ [\<lparr>Key = attr, Value = value\<rparr>])"

text \<open>\<^verbatim>\<open>SetAttribute(attr encoding.Attribute)\<close>: the same body on the fields of \<open>attr\<close>.\<close>

definition SetAttribute :: "Attributes \<Rightarrow> Attribute \<Rightarrow> Attributes" where
  "SetAttribute a attr = Set a (Key attr) (Value attr)"

section \<open>Nodes, edges and the objects they point to (graph.go)\<close>

text \<open>
  The package handles nodes and edges through pointers (\<^verbatim>\<open>*Node\<close>, \<^verbatim>\<open>*Edge\<close>): the
  graph, the edges and the analysis routines share one object per node and write its
  attributes in place. A pointer is an address, the index of the object in the list of
  all objects of its kind; \<^verbatim>\<open>&Node{...}\<close> and \<^verbatim>\<open>&Edge{...}\<close> append a new object.
  Node IDs are \<^verbatim>\<open>int64\<close> (\<^verbatim>\<open>int\<close> in the oldest file); the package only compares and
  stores them, so they are integers here.
\<close>

type_synonym addr = nat

record Node =
  NodeID :: int
  Name :: string
  Attributes :: Attributes

text \<open>
  \<^verbatim>\<open>type Edge struct { F, T *Node; Attributes }\<close>; the embedded attribute list is the
  field \<open>EdgeAttributes\<close> here, since a node's list already has the name.
\<close>

record Edge =
  F :: addr
  T :: addr
  EdgeAttributes :: Attributes

record Store =
  nodeObj :: "Node list"
  edgeObj :: "Edge list"

text \<open>\<^verbatim>\<open>func (n *Node) ID() int64 { return n.NodeID }\<close>, read through the pointer.\<close>

definition ID :: "Store \<Rightarrow> addr \<Rightarrow> int" where
  "ID M n = NodeID (nodeObj M ! n)"

text \<open>\<^verbatim>\<open>e.From().ID()\<close> and \<^verbatim>\<open>e.To().ID()\<close> of an edge pointer.\<close>

definition FromID :: "Store \<Rightarrow> addr \<Rightarrow> int" where
  "FromID M e = ID M (F (edgeObj M ! e))"

definition ToID :: "Store \<Rightarrow> addr \<Rightarrow> int" where
  "ToID M e = ID M (T (edgeObj M ! e))"

datatype error =
  NumError string
  | SelfEdge
  | NodeIDCollision int
  | NilDereference

section \<open>The embedded graph (gonum's simple.UndirectedGraph)\<close>

text \<open>
  Modelled from the spec: \<^verbatim>\<open>simple.UndirectedGraph\<close> of the gonum library, which
  \<^verbatim>\<open>Graph\<close> embeds and which is not among the files of the package. The spec's Graph
  "owns the full Node and Edge collections and an adjacency index", with at most one
  edge between two nodes. The model keeps the node collection as an association list
  from IDs to node pointers and the adjacency index as an association list from
  unordered ID pairs to edge pointers; the order of the lists stands for the
  unspecified enumeration order. The operations follow the library's documentation:
  \<^item> \<^verbatim>\<open>Node(id)\<close> returns the node with the ID, or nil;
  \<^item> \<^verbatim>\<open>Nodes()\<close>, \<^verbatim>\<open>Edges()\<close> return all nodes, all edges;
  \<^item> \<^verbatim>\<open>Edge(u, v)\<close>, \<^verbatim>\<open>EdgeBetween(u, v)\<close> return the edge between the two nodes, or nil;
  \<^item> \<^verbatim>\<open>NewNode()\<close> (\<^verbatim>\<open>NewNodeID()\<close> in the oldest file) returns an ID that is not in
    use, and does not add a node;
  \<^item> \<^verbatim>\<open>AddNode(n)\<close> adds the node and panics when its ID is in use;
  \<^item> \<^verbatim>\<open>SetEdge(e)\<close> panics when both ends have the same ID, adds the end nodes that are
    not in the graph, sets those that are, and stores the edge for the pair.
\<close>

record UndirectedGraph =
  ug_nodes :: "(int \<times> addr) list"
  ug_edges :: "((int \<times> int) \<times> addr) list"

definition pair_key :: "int \<Rightarrow> int \<Rightarrow> int \<times> int" where
  "pair_key u v = (min u v, max u v)"

definition UG_Node :: "UndirectedGraph \<Rightarrow> int \<Rightarrow> addr option" where
  "UG_Node g nid = map_of (ug_nodes g) nid"

definition UG_Nodes :: "UndirectedGraph \<Rightarrow> addr list" where
  "UG_Nodes g = map snd (ug_nodes g)"

definition UG_Edge :: "UndirectedGraph \<Rightarrow> int \<Rightarrow> int \<Rightarrow> addr option" where
  "UG_Edge g u v = map_of (ug_edges g) (pair_key u v)"

definition UG_Edges :: "UndirectedGraph \<Rightarrow> addr list" where
  "UG_Edges g = map snd (ug_edges g)"

text \<open>
  The library hands out 0 for an empty graph and otherwise one more than the largest
  ID it has seen, starting from -1. (It reuses the IDs of removed nodes first and
  searches for a gap at the top of the \<^verbatim>\<open>int64\<close> range; the package removes no node.
  The library the oldest file was written for takes one more than the largest ID in
  use, which differs only when every ID is negative. All that is used below is that the
  ID is not in use.)
\<close>

definition UG_NewNodeID :: "UndirectedGraph \<Rightarrow> int" where
  "UG_NewNodeID g = fold max (map fst (ug_nodes g)) (- 1) + 1"

definition UG_AddNode :: "UndirectedGraph \<Rightarrow> int \<Rightarrow> addr \<Rightarrow> error + UndirectedGraph" where
  "UG_AddNode g nid n =
     (if nid \<in> fst ` set (ug_nodes g) then Inl (NodeIDCollision nid)
      else Inr (g\<lparr>ug_nodes := ug_nodes g @ [(nid, n)]\<rparr>))"

definition UG_SetEdge ::
  "UndirectedGraph \<Rightarrow> int \<Rightarrow> addr \<Rightarrow> int \<Rightarrow> addr \<Rightarrow> addr \<Rightarrow> error + UndirectedGraph" where
  "UG_SetEdge g fid from tid to e =
     (if fid = tid then Inl SelfEdge
      else Inr (g\<lparr>ug_nodes := AList.update tid to (AList.update fid from (ug_nodes g)),
                  ug_edges := AList.update (pair_key fid tid) e (ug_edges g)\<rparr>))"

section \<open>Graph (graph.go)\<close>

record Graph =
  UndirectedGraph :: UndirectedGraph
  GraphAttrs :: Attributes
  NodeAttrs :: Attributes
  EdgeAttrs :: Attributes

text \<open>
  The methods \<^verbatim>\<open>Graph\<close> gets from the embedded graph. \<^verbatim>\<open>Node(id)\<close> is \<open>NodeByID\<close>, the
  name the spec gives it, since \<open>Node\<close> is the struct.
\<close>

definition Nodes :: "Graph \<Rightarrow> addr list" where
  "Nodes g = UG_Nodes (UndirectedGraph g)"

definition Edges :: "Graph \<Rightarrow> addr list" where
  "Edges g = UG_Edges (UndirectedGraph g)"

definition NodeByID :: "Graph \<Rightarrow> int \<Rightarrow> addr option" where
  "NodeByID g nid = UG_Node (UndirectedGraph g) nid"

definition EdgeBetween :: "Graph \<Rightarrow> int \<Rightarrow> int \<Rightarrow> addr option" where
  "EdgeBetween g u v = UG_Edge (UndirectedGraph g) u v"


text \<open>
  \<^verbatim>\<open>NewNode\<close> of the oldest file (src/graph.go):
  \<^verbatim>\<open>n := &Node{NodeID: g.NewNodeID()}; g.AddNode(n); return n\<close>.
\<close>

definition NewNode_old :: "Graph \<Rightarrow> Store \<Rightarrow> (error + addr) \<times> Graph \<times> Store" where
  "NewNode_old g M =
     (let nid = UG_NewNodeID (UndirectedGraph g);
          n = length (nodeObj M);
          M' = M\<lparr>nodeObj := nodeObj M @ [\<lparr>NodeID = nid, Name = '''', Attributes = []\<rparr>]\<rparr>
      in case UG_AddNode (UndirectedGraph g) nid n of
           Inl err \<Rightarrow> (Inl err, g, M')
         | Inr ug \<Rightarrow> (Inr n, g\<lparr>UndirectedGraph := ug\<rparr>, M'))"

text \<open>
  \<^verbatim>\<open>NewEdge\<close>: the edge the graph already holds between the two IDs is returned as it
  is; otherwise \<^verbatim>\<open>e := &Edge{F: from.(*Node), T: to.(*Node)}; g.SetEdge(e); return e\<close>.
  The function has no error result: the only failure is the panic of \<^verbatim>\<open>SetEdge\<close>,
  which leaves the graph as it was.
\<close>

definition NewEdge :: "Graph \<Rightarrow> Store \<Rightarrow> addr \<Rightarrow> addr \<Rightarrow> (error + addr) \<times> Graph \<times> Store" where
  "NewEdge g M from to =
     (case UG_Edge (UndirectedGraph g) (ID M from) (ID M to) of
        Some e \<Rightarrow> (Inr e, g, M)
      | None \<Rightarrow>
          (let e = length (edgeObj M);
               M' = M\<lparr>edgeObj := edgeObj M @ [\<lparr>F = from, T = to, EdgeAttributes = []\<rparr>]\<rparr>
           in case UG_SetEdge (UndirectedGraph g) (ID M from) from (ID M to) to e of
                Inl err \<Rightarrow> (Inl err, g, M')
              | Inr ug \<Rightarrow> (Inr e, g\<lparr>UndirectedGraph := ug\<rparr>, M')))"

text \<open>
  \<^verbatim>\<open>NodeMap\<close>: \<^verbatim>\<open>for _, n := range g.Nodes() { nodes[n.ID()] = n.(*Node) }\<close>, the map
  kept as an association list.
\<close>

definition NodeMap :: "Graph \<Rightarrow> Store \<Rightarrow> (int \<times> addr) list" where
  "NodeMap g M = fold (\<lambda>n nodes. AList.update (ID M n) n nodes) (Nodes g) []"

section \<open>Induced subgraphs (graph.go)\<close>

text \<open>
  \<^verbatim>\<open>type nodeInducedGraph struct { *Graph; nodes map[int64]bool }\<close>. A Go map of
  booleans answers \<^verbatim>\<open>false\<close> for a key it does not hold, so the map is a predicate on
  IDs.
\<close>

record nodeInducedGraph =
  Graph :: Graph
  nodes :: "int \<Rightarrow> bool"

text \<open>\<^verbatim>\<open>Induce\<close>: \<^verbatim>\<open>for _, n := range by { i.nodes[n.ID()] = true }\<close> on the empty map.\<close>

definition Induce :: "Graph \<Rightarrow> addr list \<Rightarrow> Store \<Rightarrow> nodeInducedGraph" where
  "Induce g sel M =
     \<lparr>Graph = g, nodes = fold (\<lambda>n m. m(ID M n := True)) sel (\<lambda>_. False)\<rparr>"

text \<open>
  The loop shared by \<^verbatim>\<open>Nodes\<close>, \<^verbatim>\<open>Edges\<close> and \<^verbatim>\<open>From\<close>:
  \<^verbatim>\<open>for i := 0; i < len(n); { if out(n[i]) { n[i], n = n[len(n)-1], n[:len(n)-1] } else { i++ } }\<close>.
  A dropped element is overwritten by the last one and the slice loses its last
  position; the index moves on only past an element that stays.
\<close>

function prune :: "('a \<Rightarrow> bool) \<Rightarrow> 'a list \<Rightarrow> nat \<Rightarrow> 'a list" where
  "prune out n i =
     (if i < length n then
        (if out (n ! i) then prune out (butlast (n[i := last n])) i
         else prune out n (i + 1))
      else n)"
  by pat_completeness auto
termination
  by (relation "measure (\<lambda>(out, n, i). length n - i)") auto

declare prune.simps [simp del]

definition nodeInducedGraph_Node :: "nodeInducedGraph \<Rightarrow> int \<Rightarrow> addr option" where
  "nodeInducedGraph_Node g nid =
     (if \<not> nodes g nid then None else NodeByID (Graph g) nid)"

definition nodeInducedGraph_Nodes :: "nodeInducedGraph \<Rightarrow> Store \<Rightarrow> addr list" where
  "nodeInducedGraph_Nodes g M =
     prune (\<lambda>n. \<not> nodes g (ID M n)) (Nodes (Graph g)) 0"

definition nodeInducedGraph_Edges :: "nodeInducedGraph \<Rightarrow> Store \<Rightarrow> addr list" where
  "nodeInducedGraph_Edges g M =
     prune (\<lambda>e. \<not> nodes g (FromID M e) \<or> \<not> nodes g (ToID M e)) (Edges (Graph g)) 0"

section \<open>Ranking by an attribute (analysis.go)\<close>

text \<open>
  A \<^verbatim>\<open>float64\<close> is a finite value, one of the two infinities, or not a number. The
  finite values are kept as the real numbers they denote: the ranking only compares
  them. \<open>fgt x y\<close> is Go's \<^verbatim>\<open>x > y\<close>, which is false as soon as one side is NaN.
\<close>

datatype float64 = NegInf | Fin real | PosInf | NaN

fun fgt :: "float64 \<Rightarrow> float64 \<Rightarrow> bool" where
  "fgt NaN y = False"
| "fgt x NaN = False"
| "fgt NegInf y = False"
| "fgt (Fin a) NegInf = True"
| "fgt (Fin a) (Fin b) = (b < a)"
| "fgt (Fin a) PosInf = False"
| "fgt PosInf PosInf = False"
| "fgt PosInf y = True"

text \<open>
  The inner loop of \<^verbatim>\<open>NodesByAttribute\<close> and \<^verbatim>\<open>EdgesByAttribute\<close>: \<^verbatim>\<open>var v float64\<close> is
  zero; the first attribute whose key is \<open>attr\<close> is parsed and ends the loop, with the
  parser's error if it has one. \<^verbatim>\<open>strconv.ParseFloat\<close> belongs to Go's library and is a
  parameter.
\<close>

fun attr_value :: "(string \<Rightarrow> error + float64) \<Rightarrow> string \<Rightarrow> Attributes \<Rightarrow> error + float64" where
  "attr_value ParseFloat attr [] = Inr (Fin 0)"
| "attr_value ParseFloat attr (a # rest) =
     (if Key a = attr then ParseFloat (Value a) else attr_value ParseFloat attr rest)"

text \<open>
  The outer loop over the enumerated entities, appending to the two slices
  \<^verbatim>\<open>nodes\<close> (\<^verbatim>\<open>edges\<close>) and \<^verbatim>\<open>vals\<close>, and returning at the first error.
\<close>

fun collect_vals ::
  "(string \<Rightarrow> error + float64) \<Rightarrow> string \<Rightarrow> ('n \<Rightarrow> Attributes) \<Rightarrow> 'n list \<Rightarrow>
     'n list \<Rightarrow> float64 list \<Rightarrow> error + 'n list \<times> float64 list" where
  "collect_vals ParseFloat attr attrs_of [] ns vals = Inr (ns, vals)"
| "collect_vals ParseFloat attr attrs_of (n # rest) ns vals =
     (case attr_value ParseFloat attr (attrs_of n) of
        Inl err \<Rightarrow> Inl err
      | Inr v \<Rightarrow> collect_vals ParseFloat attr attrs_of rest (ns @ [n]) (vals @ [v]))"

text \<open>
  Modelled from the spec: \<^verbatim>\<open>sort.Sort\<close> of Go's library, which is not among the files
  of the package ("the full entity list sorted descending by parsed value", ties in
  any order). The model is the library's \<^verbatim>\<open>insertionSort\<close>, the whole of \<^verbatim>\<open>sort.Sort\<close>
  on a short slice:
  \<^verbatim>\<open>for i := a + 1; i < b; i++ { for j := i; j > a && data.Less(j, j-1); j-- { data.Swap(j, j-1) } }\<close>.
  \<open>insert_back\<close> is the inner loop: the new last element moves towards the front past
  every element it is \<open>Less\<close> than, and stops at the first one it is not.
\<close>

function insert_back :: "('a \<Rightarrow> 'a \<Rightarrow> bool) \<Rightarrow> 'a \<Rightarrow> 'a list \<Rightarrow> 'a list" where
  "insert_back lt x xs =
     (if xs \<noteq> [] \<and> lt x (last xs) then insert_back lt x (butlast xs) @ [last xs]
      else xs @ [x])"
  by pat_completeness auto
termination
  by (relation "measure (\<lambda>(lt, x, xs). length xs)") auto

declare insert_back.simps [simp del]

definition sort_Sort :: "('a \<Rightarrow> 'a \<Rightarrow> bool) \<Rightarrow> 'a list \<Rightarrow> 'a list" where
  "sort_Sort lt xs = foldl (\<lambda>sorted x. insert_back lt x sorted) [] xs"

text \<open>
  \<^verbatim>\<open>nodesByAttr\<close> and \<^verbatim>\<open>edgesByAttr\<close>: \<^verbatim>\<open>Less(i, j)\<close> is \<^verbatim>\<open>a.vals[i] > a.vals[j]\<close> and
  \<^verbatim>\<open>Swap\<close> exchanges the two positions in both slices, so the two slices are sorted as
  one list of (value, entity) pairs.
\<close>

definition byAttr_Less :: "float64 \<times> 'n \<Rightarrow> float64 \<times> 'n \<Rightarrow> bool" where
  "byAttr_Less p q = fgt (fst p) (fst q)"

definition NodesByAttribute ::
  "(string \<Rightarrow> error + float64) \<Rightarrow> string \<Rightarrow> Graph \<Rightarrow> Store \<Rightarrow> error + addr list" where
  "NodesByAttribute ParseFloat attr g M =
     (case collect_vals ParseFloat attr (\<lambda>n. Attributes (nodeObj M ! n)) (Nodes g) [] [] of
        Inl err \<Rightarrow> Inl err
      | Inr (ns, vals) \<Rightarrow> Inr (map snd (sort_Sort byAttr_Less (zip vals ns))))"

definition EdgesByAttribute ::
  "(string \<Rightarrow> error + float64) \<Rightarrow> string \<Rightarrow> Graph \<Rightarrow> Store \<Rightarrow> error + addr list" where
  "EdgesByAttribute ParseFloat attr g M =
     (case collect_vals ParseFloat attr (\<lambda>e. EdgeAttributes (edgeObj M ! e)) (Edges g) [] [] of
        Inl err \<Rightarrow> Inl err
      | Inr (es, vals) \<Rightarrow> Inr (map snd (sort_Sort byAttr_Less (zip vals es))))"

text \<open>
  The value an entity is ranked by: zero without the attribute, else what the parser
  makes of the first value the entity carries for it. (When the parser rejects the
  value the ranking fails and nothing is ranked; the value is NaN here.)
\<close>

definition rank_value :: "(string \<Rightarrow> error + float64) \<Rightarrow> string \<Rightarrow> Attributes \<Rightarrow> float64" where
  "rank_value ParseFloat attr a =
     (case first_index a attr of
        None \<Rightarrow> Fin 0
      | Some i \<Rightarrow> (case ParseFloat (Value (a ! i)) of Inr v \<Rightarrow> v | Inl err \<Rightarrow> NaN))"

text \<open>
  A few points of \<^verbatim>\<open>strconv.ParseFloat\<close>, enough to run the examples: it reads these
  decimal literals and "NaN", and rejects "abc" and the empty string.
\<close>

definition ParseFloat_points :: "string \<Rightarrow> error + float64" where
  "ParseFloat_points s =
     (if s = ''1.0'' \<or> s = ''1'' then Inr (Fin 1)
      else if s = ''2.0'' \<or> s = ''2'' then Inr (Fin 2)
      else if s = ''3.0'' \<or> s = ''3'' then Inr (Fin 3)
      else if s = ''NaN'' then Inr NaN
      else Inl (NumError s))"

section \<open>Clique membership (analysis.go)\<close>

text \<open>\<^verbatim>\<open>fmt.Sprint(i)\<close> and the verb \<^verbatim>\<open>%d\<close> for an \<^verbatim>\<open>int\<close>: the decimal digits, with a sign.\<close>

definition digit :: "nat \<Rightarrow> char" where
  "digit d = ''0123456789'' ! d"

function Sprint_nat :: "nat \<Rightarrow> string" where
  "Sprint_nat n = (if n < 10 then [digit n] else Sprint_nat (n div 10) @ [digit (n mod 10)])"
  by pat_completeness auto
termination
  by (relation "measure (\<lambda>n. n)") auto

declare Sprint_nat.simps [simp del]

definition Sprint :: "int \<Rightarrow> string" where
  "Sprint i = (if i < 0 then CHR ''-'' # Sprint_nat (nat (- i)) else Sprint_nat (nat i))"

text \<open>
  \<^verbatim>\<open>strings.Split(s, ",")\<close> for a separator of one byte: the pieces between the
  separators, one piece (the whole string) when there is none.
\<close>

fun Split :: "string \<Rightarrow> char \<Rightarrow> string list" where
  "Split [] sep = [[]]"
| "Split (c # s) sep =
     (if c = sep then [] # Split s sep
      else (case Split s sep of w # ws \<Rightarrow> (c # w) # ws | [] \<Rightarrow> [[c]]))"

text \<open>Writing the attribute list of the node object at \<open>p\<close>.\<close>

definition store_attrs :: "Store \<Rightarrow> addr \<Rightarrow> Attributes \<Rightarrow> Store" where
  "store_attrs M p a = M\<lparr>nodeObj := (nodeObj M)[p := (nodeObj M ! p)\<lparr>Attributes := a\<rparr>]\<rparr>"

text \<open>
  The body of \<^verbatim>\<open>for _, n := range c\<close> in \<^verbatim>\<open>Clique\<close>, on the attribute list of the node.
  With an empty "clique_count" the first "clique" pair gets \<^verbatim>\<open>fmt.Sprintf("%s,%d", a.Value, i)\<close>
  written in place (\<^verbatim>\<open>found\<close>); otherwise, and when there is no "clique" pair,
  \<^verbatim>\<open>Set("clique", fmt.Sprint(i))\<close> and \<^verbatim>\<open>Set("clique_count", "")\<close> run.
\<close>

definition label_attrs :: "int \<Rightarrow> Attributes \<Rightarrow> Attributes" where
  "label_attrs i attrs =
     (case (if Get attrs ''clique_count'' = '''' then first_index attrs ''clique'' else None) of
        Some j \<Rightarrow> attrs[j := \<lparr>Key = ''clique'', Value = Value (attrs ! j) @ '','' @ Sprint i\<rparr>]
      | None \<Rightarrow> Set (Set attrs ''clique'' (Sprint i)) ''clique_count'' '''')"

text \<open>
  The same body in the oldest file (src/analysis.go): no look at "clique_count", and a
  node without a "clique" pair gets \<^verbatim>\<open>Attributes = []dot.Attribute{{"clique", fmt.Sprint(i)}}\<close>.
\<close>

definition label_attrs_old :: "int \<Rightarrow> Attributes \<Rightarrow> Attributes" where
  "label_attrs_old i attrs =
     (case first_index attrs ''clique'' of
        Some j \<Rightarrow> attrs[j := \<lparr>Key = ''clique'', Value = Value (attrs ! j) @ '','' @ Sprint i\<rparr>]
      | None \<Rightarrow> [\<lparr>Key = ''clique'', Value = Sprint i\<rparr>])"

text \<open>
  \<^verbatim>\<open>for _, n := range c { ... nodes[n.ID()].Attributes ... }\<close>: \<open>nm\<close> is the map of
  \<^verbatim>\<open>NodeMap\<close>; an ID it does not hold gives a nil pointer, and reading its attributes
  panics. \<open>lab\<close> is the body above.
\<close>

fun label_clique ::
  "(int \<Rightarrow> Attributes \<Rightarrow> Attributes) \<Rightarrow> (int \<times> addr) list \<Rightarrow> int \<Rightarrow> addr list \<Rightarrow> Store
     \<Rightarrow> error + Store" where
  "label_clique lab nm i [] M = Inr M"
| "label_clique lab nm i (n # c) M =
     (case map_of nm (ID M n) of
        None \<Rightarrow> Inl NilDereference
      | Some p \<Rightarrow> label_clique lab nm i c (store_attrs M p (lab i (Attributes (nodeObj M ! p)))))"

text \<open>
  \<^verbatim>\<open>var i int; for _, c := range mc { if len(c) < k { continue }; ...; i++ }\<close>.
\<close>

fun label_loop ::
  "(int \<Rightarrow> Attributes \<Rightarrow> Attributes) \<Rightarrow> int \<Rightarrow> (int \<times> addr) list \<Rightarrow> addr list list \<Rightarrow> int
     \<Rightarrow> Store \<Rightarrow> error + Store" where
  "label_loop lab k nm [] i M = Inr M"
| "label_loop lab k nm (c # mc) i M =
     (if int (length c) < k then label_loop lab k nm mc i M
      else (case label_clique lab nm i c M of
              Inl err \<Rightarrow> Inl err
            | Inr M' \<Rightarrow> label_loop lab k nm mc (i + 1) M'))"

text \<open>
  The body of the last loop, \<^verbatim>\<open>for _, n := range nodes\<close>: the first "clique" pair sets
  "clique_count" to the number of its comma-separated pieces.
\<close>

definition count_attrs :: "Attributes \<Rightarrow> Attributes" where
  "count_attrs attrs =
     (case first_index attrs ''clique'' of
        Some j \<Rightarrow>
          Set attrs ''clique_count'' (Sprint (int (length (Split (Value (attrs ! j)) CHR '',''))))
      | None \<Rightarrow> attrs)"

text \<open>In the oldest file the count is appended to the list, not set.\<close>

definition count_attrs_old :: "Attributes \<Rightarrow> Attributes" where
  "count_attrs_old attrs =
     (case first_index attrs ''clique'' of
        Some j \<Rightarrow>
          attrs @ [\<lparr>Key = ''clique_count'',
                    Value = Sprint (int (length (Split (Value (attrs ! j)) CHR '','')))\<rparr>]
      | None \<Rightarrow> attrs)"

definition count_loop :: "(Attributes \<Rightarrow> Attributes) \<Rightarrow> (int \<times> addr) list \<Rightarrow> Store \<Rightarrow> Store" where
  "count_loop cnt nm M =
     fold (\<lambda>idp M'. store_attrs M' (snd idp) (cnt (Attributes (nodeObj M' ! snd idp)))) nm M"

text \<open>
  \<^verbatim>\<open>Clique(g, k)\<close>. \<open>mc\<close> is what \<^verbatim>\<open>topo.BronKerbosch(g)\<close> returned, the maximal cliques
  as lists of the graph's node pointers; the enumerator belongs to gonum and is a
  parameter. (The first loop of the function only counts into \<^verbatim>\<open>ck\<close>, which nothing
  reads.)
\<close>

definition Clique :: "addr list list \<Rightarrow> Graph \<Rightarrow> Store \<Rightarrow> int \<Rightarrow> error + Store" where
  "Clique mc g M k =
     (let nm = NodeMap g M
      in case label_loop label_attrs k nm mc 0 M of
           Inl err \<Rightarrow> Inl err
         | Inr M' \<Rightarrow> Inr (count_loop count_attrs nm M'))"

definition Clique_old :: "addr list list \<Rightarrow> Graph \<Rightarrow> Store \<Rightarrow> int \<Rightarrow> error + Store" where
  "Clique_old mc g M k =
     (let nm = NodeMap g M
      in case label_loop label_attrs_old k nm mc 0 M of
           Inl err \<Rightarrow> Inl err
         | Inr M' \<Rightarrow> Inr (count_loop count_attrs_old nm M'))"




text \<open>
  The example of the spec: a fresh graph of four nodes A, B, C, D (IDs and addresses
  0 to 3) with the edges A-B, A-C, B-C, B-D, C-D, and its cliques {A,B,C} and {B,C,D}.
\<close>

definition fresh_node :: "int \<Rightarrow> Node" where
  "fresh_node n = \<lparr>NodeID = n, Name = '''', Attributes = []\<rparr>"

definition fresh_edge :: "addr \<Rightarrow> addr \<Rightarrow> Edge" where
  "fresh_edge a b = \<lparr>F = a, T = b, EdgeAttributes = []\<rparr>"

definition abcd_store :: Store where
  "abcd_store =
     \<lparr>nodeObj = [fresh_node 0, fresh_node 1, fresh_node 2, fresh_node 3],
      edgeObj = [fresh_edge 0 1, fresh_edge 0 2, fresh_edge 1 2, fresh_edge 1 3, fresh_edge 2 3]\<rparr>"

definition abcd_graph :: Graph where
  "abcd_graph =
     \<lparr>UndirectedGraph =
        \<lparr>ug_nodes = [(0, 0), (1, 1), (2, 2), (3, 3)],
         ug_edges = [((0, 1), 0), ((0, 2), 1), ((1, 2), 2), ((1, 3), 3), ((2, 3), 4)]\<rparr>,
      GraphAttrs = [], NodeAttrs = [], EdgeAttrs = []\<rparr>"

definition abcd_cliques :: "addr list list" where
  "abcd_cliques = [[0, 1, 2], [1, 2, 3]]"

definition node_attrs :: "error + Store \<Rightarrow> addr \<Rightarrow> Attributes" where
  "node_attrs r p = (case r of Inr M \<Rightarrow> Attributes (nodeObj M ! p) | Inl err \<Rightarrow> [])"

text \<open>
  Examples for the ranking. The path A-B-C-D with the "score" values 3.0, 1.0, 2.0 and
  none, and the edge values 1, 3 and none for "w".
\<close>

definition score_store :: Store where
  "score_store =
     \<lparr>nodeObj =
        [\<lparr>NodeID = 0, Name = ''A'', Attributes = [\<lparr>Key = ''score'', Value = ''3.0''\<rparr>]\<rparr>,
         \<lparr>NodeID = 1, Name = ''B'', Attributes = [\<lparr>Key = ''score'', Value = ''1.0''\<rparr>]\<rparr>,
         \<lparr>NodeID = 2, Name = ''C'', Attributes = [\<lparr>Key = ''score'', Value = ''2.0''\<rparr>]\<rparr>,
         \<lparr>NodeID = 3, Name = ''D'', Attributes = []\<rparr>],
      edgeObj =
        [\<lparr>F = 0, T = 1, EdgeAttributes = [\<lparr>Key = ''w'', Value = ''1''\<rparr>]\<rparr>,
         \<lparr>F = 1, T = 2, EdgeAttributes = [\<lparr>Key = ''w'', Value = ''3''\<rparr>]\<rparr>,
         \<lparr>F = 2, T = 3, EdgeAttributes = []\<rparr>]\<rparr>"

definition score_graph :: Graph where
  "score_graph =
     \<lparr>UndirectedGraph =
        \<lparr>ug_nodes = [(0, 0), (1, 1), (2, 2), (3, 3)],
         ug_edges = [((0, 1), 0), ((1, 2), 1), ((2, 3), 2)]\<rparr>,
      GraphAttrs = [], NodeAttrs = [], EdgeAttrs = []\<rparr>"

text \<open>Three nodes with the "score" values 1, NaN and 2, enumerated in this order.\<close>

definition nan_store :: Store where
  "nan_store =
     \<lparr>nodeObj =
        [\<lparr>NodeID = 0, Name = ''A'', Attributes = [\<lparr>Key = ''score'', Value = ''1''\<rparr>]\<rparr>,
         \<lparr>NodeID = 1, Name = ''B'', Attributes = [\<lparr>Key = ''score'', Value = ''NaN''\<rparr>]\<rparr>,
         \<lparr>NodeID = 2, Name = ''C'', Attributes = [\<lparr>Key = ''score'', Value = ''2''\<rparr>]\<rparr>],
      edgeObj = []\<rparr>"

definition nan_graph :: Graph where
  "nan_graph =
     \<lparr>UndirectedGraph = \<lparr>ug_nodes = [(0, 0), (1, 1), (2, 2)], ug_edges = []\<rparr>,
      GraphAttrs = [], NodeAttrs = [], EdgeAttrs = []\<rparr>"



text \<open>
  What the claims about the ranking speak of. An entity's value for the attribute
  parses when the entity has no pair with the key, or the parser accepts the first
  value it has for it; the value is a number when moreover the result is not NaN. A
  list is in descending order of a rank when no entry has a greater rank than an entry
  before it.
\<close>

definition parses :: "(string \<Rightarrow> error + float64) \<Rightarrow> string \<Rightarrow> Attributes \<Rightarrow> bool" where
  "parses ParseFloat attr a =
     (case first_index a attr of
        None \<Rightarrow> True
      | Some i \<Rightarrow> (case ParseFloat (Value (a ! i)) of Inl err \<Rightarrow> False | Inr v \<Rightarrow> True))"

definition number_valued :: "(string \<Rightarrow> error + float64) \<Rightarrow> string \<Rightarrow> Attributes \<Rightarrow> bool" where
  "number_valued ParseFloat attr a =
     (parses ParseFloat attr a \<and> rank_value ParseFloat attr a \<noteq> NaN)"

definition node_rank :: "(string \<Rightarrow> error + float64) \<Rightarrow> string \<Rightarrow> Store \<Rightarrow> addr \<Rightarrow> float64" where
  "node_rank ParseFloat attr M n = rank_value ParseFloat attr (Attributes (nodeObj M ! n))"

definition edge_rank :: "(string \<Rightarrow> error + float64) \<Rightarrow> string \<Rightarrow> Store \<Rightarrow> addr \<Rightarrow> float64" where
  "edge_rank ParseFloat attr M e = rank_value ParseFloat attr (EdgeAttributes (edgeObj M ! e))"

definition descending :: "('n \<Rightarrow> float64) \<Rightarrow> 'n list \<Rightarrow> bool" where
  "descending rank out = sorted_wrt (\<lambda>a b. \<not> fgt (rank b) (rank a)) out"

text \<open>
  What the claims about \<^verbatim>\<open>NewNode\<close> and \<^verbatim>\<open>NewEdge\<close> speak of: the empty graph of
  \<^verbatim>\<open>simple.NewUndirectedGraph()\<close>, two calls of \<^verbatim>\<open>NewEdge\<close> in a row, and a graph without
  an edge from a node to itself.
\<close>

definition empty_graph :: Graph where
  "empty_graph =
     \<lparr>UndirectedGraph = \<lparr>ug_nodes = [], ug_edges = []\<rparr>,
      GraphAttrs = [], NodeAttrs = [], EdgeAttrs = []\<rparr>"


definition NewEdge_twice ::
  "Graph \<Rightarrow> Store \<Rightarrow> addr \<Rightarrow> addr \<Rightarrow> (error + addr) \<times> (error + addr) \<times> Graph \<times> Store" where
  "NewEdge_twice g M a b =
     (case NewEdge g M a b of
        (r1, g1, M1) \<Rightarrow> (case NewEdge g1 M1 a b of (r2, g2, M2) \<Rightarrow> (r1, r2, g2, M2)))"

definition no_self_edge :: "Graph \<Rightarrow> bool" where
  "no_self_edge g = list_all (\<lambda>kv. fst (fst kv) \<noteq> snd (fst kv)) (ug_edges (UndirectedGraph g))"


section \<open>Facts about the attribute list\<close>

lemma first_index_None: "first_index a k = None \<longleftrightarrow> k \<notin> Key ` set a"
  by (induction a) auto

lemma first_index_Some:
  "first_index a k = Some i \<Longrightarrow> i < length a \<and> Key (a ! i) = k"
  by (induction a arbitrary: i) (auto split: if_splits)

lemma first_index_overwrite:
  "first_index (a[i := (a ! i)\<lparr>Value := v\<rparr>]) k = first_index a k"
proof (induction a arbitrary: i)
  case Nil
  show ?case by simp
next
  case (Cons x a)
  show ?case
  proof (cases i)
    case 0
    then show ?thesis by simp
  next
    case (Suc j)
    then show ?thesis using Cons.IH [of j] by simp
  qed
qed

lemma Get_first_index:
  "Get a k = (case first_index a k of None \<Rightarrow> '''' | Some i \<Rightarrow> Value (a ! i))"
  by (induction a) (auto split: option.splits)

lemma Get_absent: "k \<notin> Key ` set a \<Longrightarrow> Get a k = ''''"
  by (induction a) auto

lemma Get_Set_value: "Get (Set a k v) k = v" if "v \<noteq> ''''"
proof (cases "first_index a k")
  case None
  then have "k \<notin> Key ` set a" by (simp add: first_index_None)
  then have "Get (a @ [\<lparr>Key = k, Value = v\<rparr>]) k = v"
    by (induction a) auto
  with None show ?thesis by (simp add: Set_def)
next
  case (Some i)
  then have i: "i < length a" "Key (a ! i) = k"
    using first_index_Some by blast+
  let ?b = "a[i := (a ! i)\<lparr>Value := v\<rparr>]"
  have "first_index ?b k = Some i"
    using Some by (simp add: first_index_overwrite)
  then have "Get ?b k = v"
    using i by (simp add: Get_first_index)
  with Some that show ?thesis by (simp add: Set_def)
qed

lemma distinct_keys_index:
  assumes "distinct (map Key a)" "i < length a" "j < length a" "Key (a ! j) = Key (a ! i)"
  shows "j = i"
proof -
  have "map Key a ! j = map Key a ! i"
    using assms(2,3,4) by simp
  moreover have "j < length (map Key a)" "i < length (map Key a)"
    using assms(2,3) by simp_all
  ultimately show ?thesis
    using assms(1) nth_eq_iff_index_eq by blast
qed

lemma swap_delete_nth:
  assumes "j < length a - 1"
  shows "butlast (a[i := last a]) ! j = (if j = i then a ! (length a - 1) else a ! j)"
proof -
  have ne: "a \<noteq> []" using assms by auto
  have "butlast (a[i := last a]) ! j = (a[i := last a]) ! j"
    using assms by (simp add: nth_butlast)
  also have "\<dots> = (if j = i then last a else a ! j)"
    using assms by (simp add: nth_list_update)
  finally show ?thesis
    using ne by (simp add: last_conv_nth)
qed

lemma swap_delete_keys:
  assumes "distinct (map Key a)" "i < length a"
  shows "Key (a ! i) \<notin> Key ` set (butlast (a[i := last a]))"
proof
  let ?b = "butlast (a[i := last a])"
  assume "Key (a ! i) \<in> Key ` set ?b"
  then obtain j where j: "j < length ?b" "Key (?b ! j) = Key (a ! i)"
    by (auto simp: in_set_conv_nth)
  then have jl: "j < length a - 1" by simp
  show False
  proof (cases "j = i")
    case True
    then have "Key (a ! (length a - 1)) = Key (a ! i)"
      using j(2) swap_delete_nth [OF jl, of i] by simp
    moreover have "length a - 1 < length a" using jl by simp
    ultimately have "length a - 1 = i"
      using distinct_keys_index [OF assms] by blast
    with jl True show False by simp
  next
    case False
    then have "Key (a ! j) = Key (a ! i)"
      using j(2) swap_delete_nth [OF jl, of i] by simp
    moreover have "j < length a" using jl by simp
    ultimately have "j = i"
      using distinct_keys_index [OF assms] by blast
    with False show False by simp
  qed
qed

lemma Get_Set_empty:
  assumes "distinct (map Key a)"
  shows "Get (Set a k '''') k = ''''"
proof (cases "first_index a k")
  case None
  then have "k \<notin> Key ` set a" by (simp add: first_index_None)
  then have "Get (a @ [\<lparr>Key = k, Value = ''''\<rparr>]) k = ''''"
    by (induction a) auto
  with None show ?thesis by (simp add: Set_def)
next
  case (Some i)
  then have i: "i < length a" "Key (a ! i) = k"
    using first_index_Some by blast+
  then have "k \<notin> Key ` set (butlast (a[i := last a]))"
    using swap_delete_keys [OF assms i(1)] by simp
  then have "Get (butlast (a[i := last a])) k = ''''"
    by (rule Get_absent)
  with Some show ?thesis by (simp add: Set_def)
qed

lemma swap_delete_distinct:
  assumes "distinct xs" "i < length xs"
  shows "distinct (butlast (xs[i := last xs]))"
proof -
  let ?b = "butlast (xs[i := last xs])"
  let ?f = "\<lambda>p. if p = i then length xs - 1 else p"
  have len: "length ?b = length xs - 1" by simp
  have "?b ! p \<noteq> ?b ! q" if pq: "p < length xs - 1" "q < length xs - 1" "p \<noteq> q" for p q
  proof -
    have "?b ! p = xs ! ?f p" "?b ! q = xs ! ?f q"
      using swap_delete_nth [OF pq(1), of i] swap_delete_nth [OF pq(2), of i] by simp_all
    moreover have "?f p < length xs" "?f q < length xs" "?f p \<noteq> ?f q"
      using pq by auto
    ultimately show ?thesis
      using assms(1) by (simp add: nth_eq_iff_index_eq)
  qed
  then show ?thesis
    unfolding distinct_conv_nth len by blast
qed

lemma map_swap_delete:
  assumes "i < length a"
  shows "map f (butlast (a[i := last a])) = butlast ((map f a)[i := last (map f a)])"
proof -
  have "a \<noteq> []" using assms by auto
  then show ?thesis
    by (simp add: map_butlast map_update last_map)
qed

lemma Set_distinct:
  assumes "distinct (map Key a)"
  shows "distinct (map Key (Set a k v))"
proof (cases "first_index a k")
  case None
  then have "k \<notin> Key ` set a" by (simp add: first_index_None)
  with None assms show ?thesis by (simp add: Set_def)
next
  case (Some i)
  then have i: "i < length a" "Key (a ! i) = k"
    using first_index_Some by blast+
  show ?thesis
  proof (cases "v = ''''")
    case True
    have "distinct (butlast ((map Key a)[i := last (map Key a)]))"
      using assms i(1) by (intro swap_delete_distinct) simp_all
    then have "distinct (map Key (butlast (a[i := last a])))"
      using map_swap_delete [OF i(1), of Key] by simp
    with Some True show ?thesis by (simp add: Set_def)
  next
    case False
    have "map Key (a[i := (a ! i)\<lparr>Value := v\<rparr>]) = map Key a"
      using i by (simp add: map_update list_update_same_conv)
    with Some False assms show ?thesis by (simp add: Set_def)
  qed
qed

section \<open>Claims about the attribute list\<close>

text \<open>
  C2 (as amended). Reading a key right after setting it to a non-empty value returns
  that value, for every list. Setting a key to the empty string and reading it returns
  the empty string when the keys of the list are pairwise distinct, and \<open>Set\<close> keeps
  them so. Reading a key that no pair carries returns the empty string.
\<close>

theorem C2_get_after_set:
  "(v \<noteq> '''' \<longrightarrow> Get (Set a k v) k = v) \<and>
   (distinct (map Key a) \<longrightarrow>
      Get (Set a k '''') k = '''' \<and> distinct (map Key (Set a k v))) \<and>
   (k \<notin> Key ` set a \<longrightarrow> Get a k = '''')"
  using Get_Set_value [of v a k] Get_Set_empty [of a k] Set_distinct [of a k v]
    Get_absent [of k a]
  by blast

theorem C2_get_after_set_witness:
  "Get (Set [\<lparr>Key = ''rank'', Value = ''0.5''\<rparr>, \<lparr>Key = ''desc'', Value = ''x''\<rparr>]
        ''rank'' ''0.7'') ''rank'' = ''0.7'' \<and>
   Get (Set [\<lparr>Key = ''rank'', Value = ''0.5''\<rparr>, \<lparr>Key = ''desc'', Value = ''x''\<rparr>]
        ''rank'' '''') ''rank'' = '''' \<and>
   Set [\<lparr>Key = ''rank'', Value = ''0.5''\<rparr>, \<lparr>Key = ''desc'', Value = ''x''\<rparr>]
        ''rank'' '''' = [\<lparr>Key = ''desc'', Value = ''x''\<rparr>] \<and>
   Get [\<lparr>Key = ''desc'', Value = ''x''\<rparr>] ''rank'' = ''''"
  using C2_get_after_set
    [of "''0.7''" "[\<lparr>Key = ''rank'', Value = ''0.5''\<rparr>, \<lparr>Key = ''desc'', Value = ''x''\<rparr>]"
      "''rank''"]
    C2_get_after_set [of "''0.7''" "[\<lparr>Key = ''desc'', Value = ''x''\<rparr>]" "''rank''"]
  by (simp add: Set_def)

text \<open>
  C2 as stated fails on a list that holds the key twice: the swap-delete removes the
  first pair only, and the second one answers the read.
\<close>

theorem C2_duplicate_key_counterexample:
  "Get (Set [\<lparr>Key = ''k'', Value = ''a''\<rparr>, \<lparr>Key = ''k'', Value = ''b''\<rparr>] ''k'' '''') ''k''
     = ''b''"
  by (simp add: Set_def)

text \<open>
  C10. Setting a key that the list does not hold to the empty string appends the pair
  with the empty value: the list is one longer, the pair is enumerated, and reading
  the key still returns the empty string.
\<close>

theorem C10_set_empty_on_absent_key:
  assumes "k \<notin> Key ` set a"
  shows "Set a k '''' = a @ [\<lparr>Key = k, Value = ''''\<rparr>] \<and>
         length (Set a k '''') = length a + 1 \<and>
         \<lparr>Key = k, Value = ''''\<rparr> \<in> set (Set a k '''') \<and>
         Get (Set a k '''') k = ''''"
proof -
  have none: "first_index a k = None"
    using assms by (simp add: first_index_None)
  then have eq: "Set a k '''' = a @ [\<lparr>Key = k, Value = ''''\<rparr>]"
    by (simp add: Set_def)
  have "Get (a @ [\<lparr>Key = k, Value = ''''\<rparr>]) k = ''''"
    using assms by (induction a) auto
  with eq show ?thesis by simp
qed

theorem C10_set_empty_on_absent_key_witness:
  "Set [\<lparr>Key = ''clique'', Value = ''0''\<rparr>] ''clique_count'' ''''
     = [\<lparr>Key = ''clique'', Value = ''0''\<rparr>, \<lparr>Key = ''clique_count'', Value = ''''\<rparr>] \<and>
   length (Set [\<lparr>Key = ''clique'', Value = ''0''\<rparr>] ''clique_count'' '''') = 2 \<and>
   Get (Set [\<lparr>Key = ''clique'', Value = ''0''\<rparr>] ''clique_count'' '''') ''clique_count'' = ''''"
  using C10_set_empty_on_absent_key [of "''clique_count''" "[\<lparr>Key = ''clique'', Value = ''0''\<rparr>]"]
  by simp

section \<open>Facts about the swap-delete loop\<close>

lemma swap_delete_mset:
  assumes "i < length n"
  shows "add_mset (n ! i) (mset (butlast (n[i := last n]))) = mset n"
proof -
  let ?xs = "n[i := last n]"
  have ne: "n \<noteq> []" "?xs \<noteq> []" using assms by auto
  have "last ?xs = last n"
    using assms ne by (cases "i = length n - 1") (simp_all add: last_conv_nth)
  then have "mset ?xs = add_mset (last n) (mset (butlast ?xs))"
    using ne(2) by (metis append_butlast_last_id mset.simps(2) mset_append union_mset_add_mset_right
        add.right_neutral mset.simps(1))
  moreover have "mset ?xs = add_mset (last n) (mset n - {#n ! i#})"
    using assms by (simp add: mset_update)
  ultimately have "mset (butlast ?xs) = mset n - {#n ! i#}" by simp
  moreover have "n ! i \<in># mset n" using assms by simp
  ultimately show ?thesis by simp
qed

lemma prune_keeps:
  "filter_mset (\<lambda>x. \<not> out x) (mset (prune out n i)) = filter_mset (\<lambda>x. \<not> out x) (mset n)"
proof (induction out n i rule: prune.induct)
  case (1 out n i)
  show ?case
  proof (cases "i < length n")
    case False
    then show ?thesis by (simp add: prune.simps)
  next
    case True
    show ?thesis
    proof (cases "out (n ! i)")
      case True
      have "filter_mset (\<lambda>x. \<not> out x) (mset n)
            = filter_mset (\<lambda>x. \<not> out x) (add_mset (n ! i) (mset (butlast (n[i := last n]))))"
        using swap_delete_mset [OF \<open>i < length n\<close>] by simp
      also have "\<dots> = filter_mset (\<lambda>x. \<not> out x) (mset (butlast (n[i := last n])))"
        using True by simp
      finally show ?thesis
        using "1.IH"(1) [OF \<open>i < length n\<close> True] \<open>i < length n\<close> True
        by (subst prune.simps) simp
    next
      case False
      then show ?thesis
        using "1.IH"(2) [OF \<open>i < length n\<close> False] \<open>i < length n\<close>
        by (subst prune.simps) simp
    qed
  qed
qed

lemma prune_sound:
  "\<forall>j<i. \<not> out (n ! j) \<Longrightarrow> i \<le> length n \<Longrightarrow> x \<in> set (prune out n i) \<Longrightarrow> \<not> out x"
proof (induction out n i rule: prune.induct)
  case (1 out n i)
  show ?case
  proof (cases "i < length n")
    case False
    then have "prune out n i = n" by (simp add: prune.simps)
    with "1.prems" False show ?thesis
      by (auto simp: in_set_conv_nth)
  next
    case True
    show ?thesis
    proof (cases "out (n ! i)")
      case so: True
      let ?n = "butlast (n[i := last n])"
      have eq: "prune out n i = prune out ?n i"
        using True so by (subst prune.simps) simp
      have "\<forall>j<i. \<not> out (?n ! j)"
      proof (intro allI impI)
        fix j assume "j < i"
        then have "j < length n - 1" "j \<noteq> i" using True by simp_all
        then have "?n ! j = n ! j" by (simp add: swap_delete_nth)
        then show "\<not> out (?n ! j)" using "1.prems"(1) \<open>j < i\<close> by simp
      qed
      moreover have "i \<le> length ?n" using True by simp
      ultimately show ?thesis
        using "1.IH"(1) [OF True so] "1.prems"(3) eq by simp
    next
      case no: False
      have eq: "prune out n i = prune out n (i + 1)"
        using True no by (subst prune.simps) simp
      have "\<forall>j<i + 1. \<not> out (n ! j)"
        using "1.prems"(1) no by (auto simp: less_Suc_eq)
      moreover have "i + 1 \<le> length n" using True by simp
      ultimately show ?thesis
        using "1.IH"(2) [OF True no] "1.prems"(3) eq by simp
    qed
  qed
qed

lemma prune_mset: "mset (prune out n 0) = filter_mset (\<lambda>x. \<not> out x) (mset n)"
proof -
  have "\<forall>x\<in>#mset (prune out n 0). \<not> out x"
    using prune_sound [of 0 out n] by auto
  then have "filter_mset (\<lambda>x. \<not> out x) (mset (prune out n 0)) = mset (prune out n 0)"
    by (simp add: filter_mset_eq_conv)
  then show ?thesis using prune_keeps [of out n 0] by simp
qed

lemma prune_set: "set (prune out n 0) = {x \<in> set n. \<not> out x}"
proof -
  have "set (prune out n 0) = set_mset (mset (prune out n 0))" by simp
  also have "\<dots> = {x \<in> set n. \<not> out x}"
    unfolding prune_mset by auto
  finally show ?thesis .
qed

lemma Induce_nodes: "nodes (Induce g sel M) = (\<lambda>i. i \<in> ID M ` set sel)"
proof -
  have "fold (\<lambda>n m. m(ID M n := True)) sel m0 = (\<lambda>i. i \<in> ID M ` set sel \<or> m0 i)" for m0
    by (induction sel arbitrary: m0) (auto simp: fun_eq_iff)
  then show ?thesis by (simp add: Induce_def)
qed

lemma Induce_Graph: "Graph (Induce g sel M) = g"
  by (simp add: Induce_def)

section \<open>Claims about induced subgraphs\<close>

text \<open>
  C4. In the subgraph induced by the nodes \<open>sel\<close>, whose IDs are the selection
  \<open>ID M ` set sel\<close>: every enumerated node has its ID in the selection, every enumerated
  edge has both end IDs in it, and the lookup by ID answers a node (the graph's own)
  only for an ID of the selection and nil for any other. The enumerations are exactly
  the graph's nodes and edges that pass the test.
\<close>

theorem C4_induced_subgraph:
  "(\<forall>n \<in> set (nodeInducedGraph_Nodes (Induce g sel M) M). ID M n \<in> ID M ` set sel) \<and>
   (\<forall>e \<in> set (nodeInducedGraph_Edges (Induce g sel M) M).
      FromID M e \<in> ID M ` set sel \<and> ToID M e \<in> ID M ` set sel) \<and>
   (\<forall>nid n. nodeInducedGraph_Node (Induce g sel M) nid = Some n \<longrightarrow>
      nid \<in> ID M ` set sel \<and> NodeByID g nid = Some n) \<and>
   (\<forall>nid. nid \<notin> ID M ` set sel \<longrightarrow> nodeInducedGraph_Node (Induce g sel M) nid = None) \<and>
   set (nodeInducedGraph_Nodes (Induce g sel M) M)
     = {n \<in> set (Nodes g). ID M n \<in> ID M ` set sel} \<and>
   set (nodeInducedGraph_Edges (Induce g sel M) M)
     = {e \<in> set (Edges g). FromID M e \<in> ID M ` set sel \<and> ToID M e \<in> ID M ` set sel}"
proof -
  have n: "set (nodeInducedGraph_Nodes (Induce g sel M) M)
        = {n \<in> set (Nodes g). ID M n \<in> ID M ` set sel}"
    by (simp add: nodeInducedGraph_Nodes_def Induce_nodes Induce_Graph prune_set)
  have e: "set (nodeInducedGraph_Edges (Induce g sel M) M)
        = {e \<in> set (Edges g). FromID M e \<in> ID M ` set sel \<and> ToID M e \<in> ID M ` set sel}"
    by (simp add: nodeInducedGraph_Edges_def Induce_nodes Induce_Graph prune_set)
  have l: "nodeInducedGraph_Node (Induce g sel M) nid
        = (if nid \<in> ID M ` set sel then NodeByID g nid else None)" for nid
    by (simp add: nodeInducedGraph_Node_def Induce_nodes Induce_Graph)
  show ?thesis
    unfolding n e l by simp
qed

theorem C4_induced_subgraph_witness:
  "nodeInducedGraph_Nodes (Induce abcd_graph [1, 2, 3] abcd_store) abcd_store = [3, 1, 2] \<and>
   nodeInducedGraph_Edges (Induce abcd_graph [1, 2, 3] abcd_store) abcd_store = [4, 3, 2] \<and>
   nodeInducedGraph_Node (Induce abcd_graph [1, 2, 3] abcd_store) 0 = None \<and>
   nodeInducedGraph_Node (Induce abcd_graph [1, 2, 3] abcd_store) 1 = Some 1"
proof -
  have a: "nodeInducedGraph_Nodes (Induce abcd_graph [1, 2, 3] abcd_store) abcd_store = [3, 1, 2]"
    by code_simp
  have b: "nodeInducedGraph_Edges (Induce abcd_graph [1, 2, 3] abcd_store) abcd_store = [4, 3, 2]"
    by code_simp
  have c: "nodeInducedGraph_Node (Induce abcd_graph [1, 2, 3] abcd_store) 0 = None"
    by code_simp
  have d: "nodeInducedGraph_Node (Induce abcd_graph [1, 2, 3] abcd_store) 1 = Some 1"
    by code_simp
  show ?thesis
    using C4_induced_subgraph [of abcd_graph "[1, 2, 3]" abcd_store] a b c d
    by - (intro conjI; assumption)
qed

section \<open>More facts about the attribute list\<close>

lemma Get_append:
  "Get (a @ b) k = (if k \<in> Key ` set a then Get a k else Get b k)"
  by (induction a) auto

lemma Get_member:
  "distinct (map Key a) \<Longrightarrow> x \<in> set a \<Longrightarrow> Get a (Key x) = Value x"
  by (induction a) (auto simp: rev_image_eqI)

lemma Get_update_other:
  "i < length a \<Longrightarrow> Key (a ! i) \<noteq> k \<Longrightarrow> Key x \<noteq> k \<Longrightarrow> Get (a[i := x]) k = Get a k"
proof (induction a arbitrary: i)
  case Nil
  then show ?case by simp
next
  case (Cons y a)
  then show ?case by (cases i) auto
qed

lemma Get_update_first:
  "first_index a k = Some i \<Longrightarrow> Key x = k \<Longrightarrow> Get (a[i := x]) k = Value x"
proof (induction a arbitrary: i)
  case Nil
  then show ?case by simp
next
  case (Cons y a)
  then show ?case by (cases i) (auto split: if_splits)
qed

lemma keys_update_same:
  "i < length a \<Longrightarrow> Key x = Key (a ! i) \<Longrightarrow> map Key (a[i := x]) = map Key a"
  by (simp add: map_update list_update_same_conv)

lemma Get_swap_delete_other:
  assumes d: "distinct (map Key a)" and i: "i < length a" and k: "Key (a ! i) \<noteq> k"
  shows "Get (butlast (a[i := last a])) k = Get a k"
proof -
  let ?b = "butlast (a[i := last a])"
  have m: "add_mset (a ! i) (mset ?b) = mset a"
    using i by (rule swap_delete_mset)
  then have s: "set a = insert (a ! i) (set ?b)"
    by (metis set_mset_add_mset_insert set_mset_mset)
  have db: "distinct (map Key ?b)"
    using swap_delete_distinct [of "map Key a" i] d i map_swap_delete [OF i, of Key] by simp
  show ?thesis
  proof (cases "k \<in> Key ` set a")
    case False
    then have "k \<notin> Key ` set ?b" using s by auto
    with False show ?thesis by (simp add: Get_absent)
  next
    case True
    then obtain x where x: "x \<in> set a" "Key x = k" by auto
    then have "x \<noteq> a ! i" using k by auto
    then have "x \<in> set ?b" using x(1) s by auto
    then have "Get ?b (Key x) = Value x" using db by (rule Get_member [rotated])
    moreover have "Get a (Key x) = Value x" using d x(1) by (rule Get_member)
    ultimately show ?thesis using x(2) by simp
  qed
qed

lemma Get_Set_other:
  assumes "distinct (map Key a)" "k' \<noteq> k"
  shows "Get (Set a k v) k' = Get a k'"
proof (cases "first_index a k")
  case None
  then show ?thesis using assms(2) by (simp add: Set_def Get_append Get_absent)
next
  case (Some i)
  then have i: "i < length a" "Key (a ! i) = k"
    using first_index_Some by blast+
  show ?thesis
  proof (cases "v = ''''")
    case True
    then show ?thesis
      using Some Get_swap_delete_other [OF assms(1) i(1), of k'] i(2) assms(2)
      by (simp add: Set_def)
  next
    case False
    then show ?thesis
      using Some Get_update_other [OF i(1), of k' "(a ! i)\<lparr>Value := v\<rparr>"] i(2) assms(2)
      by (simp add: Set_def)
  qed
qed

section \<open>Facts about the clique labels\<close>

lemma Sprint_nat_nonempty: "Sprint_nat n \<noteq> []"
  by (subst Sprint_nat.simps) simp

lemma Sprint_nonempty: "Sprint i \<noteq> []"
  by (simp add: Sprint_def Sprint_nat_nonempty)


lemma label_attrs_replaces:
  assumes "distinct (map Key attrs)" "Get attrs ''clique_count'' \<noteq> ''''"
  shows "Get (label_attrs i attrs) ''clique'' = Sprint i"
    and "Get (label_attrs i attrs) ''clique_count'' = ''''"
proof -
  let ?b = "Set attrs ''clique'' (Sprint i)"
  have l: "label_attrs i attrs = Set ?b ''clique_count'' ''''"
    using assms(2) by (simp add: label_attrs_def)
  have db: "distinct (map Key ?b)"
    using assms(1) by (rule Set_distinct)
  have "Get ?b ''clique'' = Sprint i"
    using Sprint_nonempty by (rule Get_Set_value)
  then show "Get (label_attrs i attrs) ''clique'' = Sprint i"
    using Get_Set_other [OF db, of "''clique''" "''clique_count''" "''''"] l by simp
  show "Get (label_attrs i attrs) ''clique_count'' = ''''"
    using Get_Set_empty [OF db] l by simp
qed

lemma label_attrs_appends:
  assumes "Get attrs ''clique_count'' = ''''" "first_index attrs ''clique'' = Some j"
  shows "Get (label_attrs i attrs) ''clique'' = Get attrs ''clique'' @ '','' @ Sprint i"
proof -
  have "Get attrs ''clique'' = Value (attrs ! j)"
    using assms(2) by (simp add: Get_first_index)
  moreover have "label_attrs i attrs
      = attrs[j := \<lparr>Key = ''clique'', Value = Value (attrs ! j) @ '','' @ Sprint i\<rparr>]"
    using assms by (simp add: label_attrs_def)
  ultimately show ?thesis
    using Get_update_first [OF assms(2)] by simp
qed

lemma label_attrs_old_accumulates:
  assumes "first_index attrs ''clique'' = Some j"
  shows "Get (label_attrs_old i attrs) ''clique'' = Get attrs ''clique'' @ '','' @ Sprint i"
proof -
  have "Get attrs ''clique'' = Value (attrs ! j)"
    using assms by (simp add: Get_first_index)
  moreover have "label_attrs_old i attrs
      = attrs[j := \<lparr>Key = ''clique'', Value = Value (attrs ! j) @ '','' @ Sprint i\<rparr>]"
    using assms by (simp add: label_attrs_old_def)
  ultimately show ?thesis
    using Get_update_first [OF assms] by simp
qed

lemma label_attrs_distinct:
  assumes "distinct (map Key attrs)"
  shows "distinct (map Key (label_attrs i attrs))"
proof (cases "if Get attrs ''clique_count'' = '''' then first_index attrs ''clique'' else None")
  case None
  then show ?thesis
    using assms by (simp add: label_attrs_def Set_distinct)
next
  case (Some j)
  then have "first_index attrs ''clique'' = Some j"
    by (simp split: if_splits)
  then have "j < length attrs" "Key (attrs ! j) = ''clique''"
    using first_index_Some by blast+
  then show ?thesis
    using Some assms by (simp add: label_attrs_def keys_update_same)
qed

section \<open>Claims about the clique labels\<close>


text \<open>
  C8 (as amended). A second run does not add to the labels of the first. When a node
  whose keys are pairwise distinct carries a non-empty "clique_count", the first label
  a run writes to it replaces the "clique" value and clears "clique_count"; a label is
  comma-joined to the "clique" value only while "clique_count" is empty, that is to the
  labels of the same run. On the example of C5 a second run leaves every node as the
  first run left it.
\<close>

theorem C8_rerun_replaces_labels:
  "(distinct (map Key attrs) \<and> Get attrs ''clique_count'' \<noteq> '''' \<longrightarrow>
      Get (label_attrs i attrs) ''clique'' = Sprint i \<and>
      Get (label_attrs i attrs) ''clique_count'' = '''') \<and>
   (Get attrs ''clique_count'' = '''' \<and> first_index attrs ''clique'' = Some j \<longrightarrow>
      Get (label_attrs i attrs) ''clique'' = Get attrs ''clique'' @ '','' @ Sprint i) \<and>
   (case Clique abcd_cliques abcd_graph abcd_store 3 of
      Inr M \<Rightarrow> Clique abcd_cliques abcd_graph M 3
    | Inl err \<Rightarrow> Inl err) = Clique abcd_cliques abcd_graph abcd_store 3"
proof -
  have r: "(case Clique abcd_cliques abcd_graph abcd_store 3 of
      Inr M \<Rightarrow> Clique abcd_cliques abcd_graph M 3
    | Inl err \<Rightarrow> Inl err) = Clique abcd_cliques abcd_graph abcd_store 3"
    by code_simp
  show ?thesis
    using label_attrs_replaces [of attrs i] label_attrs_appends [of attrs j i] r
    by blast
qed

theorem C8_rerun_replaces_labels_witness:
  "Get (label_attrs 0 [\<lparr>Key = ''clique'', Value = ''0,1''\<rparr>, \<lparr>Key = ''clique_count'', Value = ''2''\<rparr>])
     ''clique'' = ''0'' \<and>
   Get (label_attrs 1 [\<lparr>Key = ''clique'', Value = ''0''\<rparr>]) ''clique'' = ''0,1''"
proof -
  let ?a = "[\<lparr>Key = ''clique'', Value = ''0,1''\<rparr>, \<lparr>Key = ''clique_count'', Value = ''2''\<rparr>]"
  let ?b = "[\<lparr>Key = ''clique'', Value = ''0''\<rparr>]"
  have h1: "distinct (map Key ?a) \<and> Get ?a ''clique_count'' \<noteq> ''''"
    by simp
  have h2: "Get ?b ''clique_count'' = '''' \<and> first_index ?b ''clique'' = Some 0"
    by simp
  have s: "Sprint 0 = ''0''" "Sprint 1 = ''1''"
    by code_simp+
  have "Get (label_attrs 0 ?a) ''clique'' = Sprint 0"
    using C8_rerun_replaces_labels [of ?a 0] h1 by blast
  moreover have "Get (label_attrs 1 ?b) ''clique'' = Get ?b ''clique'' @ '','' @ Sprint 1"
    using C8_rerun_replaces_labels [of ?b 1 0] h2 by blast
  ultimately show ?thesis
    using s by simp
qed

text \<open>
  C8 as stated fails: after a second run on the example node B carries "0,1", the
  labels of the second run alone, and the count "2". The oldest file (src/analysis.go)
  does accumulate: there B ends with "0,1,0,1".
\<close>

theorem C8_accumulation_counterexample:
  "node_attrs
     (case Clique abcd_cliques abcd_graph abcd_store 3 of
        Inr M \<Rightarrow> Clique abcd_cliques abcd_graph M 3
      | Inl err \<Rightarrow> Inl err) 1
     = [\<lparr>Key = ''clique'', Value = ''0,1''\<rparr>, \<lparr>Key = ''clique_count'', Value = ''2''\<rparr>] \<and>
   Get (node_attrs
     (case Clique_old abcd_cliques abcd_graph abcd_store 3 of
        Inr M \<Rightarrow> Clique_old abcd_cliques abcd_graph M 3
      | Inl err \<Rightarrow> Inl err) 1) ''clique'' = ''0,1,0,1''"
  by code_simp

section \<open>Facts about the ranking\<close>

lemma fgt_asym: "fgt a b \<Longrightarrow> \<not> fgt b a"
  by (cases a; cases b) auto

lemma fgt_negtrans:
  "a \<noteq> NaN \<Longrightarrow> b \<noteq> NaN \<Longrightarrow> c \<noteq> NaN \<Longrightarrow> \<not> fgt b a \<Longrightarrow> \<not> fgt c b \<Longrightarrow> \<not> fgt c a"
  by (cases a; cases b; cases c) auto

lemma insert_back_mset: "mset (insert_back lt x xs) = add_mset x (mset xs)"
proof (induction lt x xs rule: insert_back.induct)
  case (1 lt x xs)
  show ?case
  proof (cases "xs \<noteq> [] \<and> lt x (last xs)")
    case True
    then have "mset xs = add_mset (last xs) (mset (butlast xs))"
      by (metis append_butlast_last_id mset.simps(1,2) mset_append union_mset_add_mset_right
          add.right_neutral)
    then show ?thesis
      using True "1.IH" by (subst insert_back.simps) simp
  next
    case False
    then show ?thesis by (subst insert_back.simps) auto
  qed
qed

lemma insert_back_set: "set (insert_back lt x xs) = insert x (set xs)"
  using insert_back_mset [of lt x xs] by (metis set_mset_add_mset_insert set_mset_mset)

lemma insert_back_sorted:
  assumes asym: "\<And>a b. lt a b \<Longrightarrow> \<not> lt b a"
    and negtrans: "\<And>a b c. P a \<Longrightarrow> P b \<Longrightarrow> P c \<Longrightarrow> \<not> lt b a \<Longrightarrow> \<not> lt c b \<Longrightarrow> \<not> lt c a"
  shows "sorted_wrt (\<lambda>a b. \<not> lt b a) xs \<Longrightarrow> P x \<Longrightarrow> \<forall>a\<in>set xs. P a
           \<Longrightarrow> sorted_wrt (\<lambda>a b. \<not> lt b a) (insert_back lt x xs)"
proof (induction "length xs" arbitrary: xs)
  case 0
  then show ?case by (subst insert_back.simps) simp
next
  case (Suc m)
  then have ne: "xs \<noteq> []" by auto
  then have xs: "xs = butlast xs @ [last xs]" by simp
  have sb: "sorted_wrt (\<lambda>a b. \<not> lt b a) (butlast xs)"
    using Suc.prems(1) xs by (metis sorted_wrt_append)
  have bl: "\<forall>a\<in>set (butlast xs). \<not> lt (last xs) a"
    using Suc.prems(1) xs by (metis sorted_wrt_append list.set_intros(1))
  have pb: "\<forall>a\<in>set (butlast xs). P a"
    using Suc.prems(3) by (meson in_set_butlastD)
  have pl: "P (last xs)" using Suc.prems(3) ne by simp
  show ?case
  proof (cases "lt x (last xs)")
    case True
    have "m = length (butlast xs)" using Suc.hyps(2) by simp
    then have "sorted_wrt (\<lambda>a b. \<not> lt b a) (insert_back lt x (butlast xs))"
      using sb Suc.prems(2) pb by (rule Suc.hyps(1))
    moreover have "\<forall>a\<in>set (insert_back lt x (butlast xs)). \<not> lt (last xs) a"
      using bl asym [OF True] by (auto simp: insert_back_set)
    ultimately have "sorted_wrt (\<lambda>a b. \<not> lt b a) (insert_back lt x (butlast xs) @ [last xs])"
      by (simp add: sorted_wrt_append)
    then show ?thesis
      using True ne by (subst insert_back.simps) simp
  next
    case False
    have "\<not> lt x a" if a: "a \<in> set xs" for a
    proof (cases "a = last xs")
      case True
      with False show ?thesis by simp
    next
      case neq: False
      have "a \<in> set (butlast xs)"
        using a neq xs by (metis Un_iff empty_iff empty_set insert_iff list.simps(15) set_append)
      then have "\<not> lt (last xs) a" "P a" using bl pb by simp_all
      then show ?thesis
        using negtrans [of a "last xs" x] pl Suc.prems(2) False by blast
    qed
    then have "sorted_wrt (\<lambda>a b. \<not> lt b a) (xs @ [x])"
      using Suc.prems(1) by (simp add: sorted_wrt_append)
    then show ?thesis
      using False by (subst insert_back.simps) simp
  qed
qed

lemma sort_Sort_fold_mset:
  "mset (foldl (\<lambda>sorted x. insert_back lt x sorted) acc xs) = mset acc + mset xs"
  by (induction xs arbitrary: acc) (simp_all add: insert_back_mset)

lemma sort_Sort_mset: "mset (sort_Sort lt xs) = mset xs"
  by (simp add: sort_Sort_def sort_Sort_fold_mset)

lemma sort_Sort_fold_sorted:
  assumes asym: "\<And>a b. lt a b \<Longrightarrow> \<not> lt b a"
    and negtrans: "\<And>a b c. P a \<Longrightarrow> P b \<Longrightarrow> P c \<Longrightarrow> \<not> lt b a \<Longrightarrow> \<not> lt c b \<Longrightarrow> \<not> lt c a"
  shows "sorted_wrt (\<lambda>a b. \<not> lt b a) acc \<Longrightarrow> \<forall>a\<in>set acc. P a \<Longrightarrow> \<forall>a\<in>set xs. P a
           \<Longrightarrow> sorted_wrt (\<lambda>a b. \<not> lt b a) (foldl (\<lambda>sorted x. insert_back lt x sorted) acc xs)"
proof (induction xs arbitrary: acc)
  case Nil
  then show ?case by simp
next
  case (Cons x xs)
  have "sorted_wrt (\<lambda>a b. \<not> lt b a) (insert_back lt x acc)"
  proof (rule insert_back_sorted [of lt P])
    show "\<And>a b. lt a b \<Longrightarrow> \<not> lt b a" by (rule asym)
    show "\<And>a b c. P a \<Longrightarrow> P b \<Longrightarrow> P c \<Longrightarrow> \<not> lt b a \<Longrightarrow> \<not> lt c b \<Longrightarrow> \<not> lt c a"
      by (rule negtrans)
    show "sorted_wrt (\<lambda>a b. \<not> lt b a) acc" by (rule Cons.prems(1))
    show "P x" using Cons.prems(3) by simp
    show "\<forall>a\<in>set acc. P a" by (rule Cons.prems(2))
  qed
  moreover have "\<forall>a\<in>set (insert_back lt x acc). P a"
    using Cons.prems by (simp add: insert_back_set)
  moreover have "\<forall>a\<in>set xs. P a" using Cons.prems(3) by simp
  ultimately have "sorted_wrt (\<lambda>a b. \<not> lt b a)
      (foldl (\<lambda>sorted x. insert_back lt x sorted) (insert_back lt x acc) xs)"
    by (rule Cons.IH)
  then show ?case by simp
qed

lemma sort_Sort_sorted:
  assumes "\<And>a b. lt a b \<Longrightarrow> \<not> lt b a"
    and "\<And>a b c. P a \<Longrightarrow> P b \<Longrightarrow> P c \<Longrightarrow> \<not> lt b a \<Longrightarrow> \<not> lt c b \<Longrightarrow> \<not> lt c a"
    and "\<forall>a\<in>set xs. P a"
  shows "sorted_wrt (\<lambda>a b. \<not> lt b a) (sort_Sort lt xs)"
  unfolding sort_Sort_def
proof (rule sort_Sort_fold_sorted [of lt P])
  show "\<And>a b. lt a b \<Longrightarrow> \<not> lt b a" by (rule assms(1))
  show "\<And>a b c. P a \<Longrightarrow> P b \<Longrightarrow> P c \<Longrightarrow> \<not> lt b a \<Longrightarrow> \<not> lt c b \<Longrightarrow> \<not> lt c a"
    by (rule assms(2))
  show "sorted_wrt (\<lambda>a b. \<not> lt b a) []" by simp
  show "\<forall>a\<in>set []. P a" by simp
  show "\<forall>a\<in>set xs. P a" by (rule assms(3))
qed

lemma attr_value_first_index:
  "attr_value P attr a =
     (case first_index a attr of None \<Rightarrow> Inr (Fin 0) | Some i \<Rightarrow> P (Value (a ! i)))"
  by (induction a) (auto split: option.splits)

lemma attr_value_parses: "(\<exists>v. attr_value P attr a = Inr v) \<longleftrightarrow> parses P attr a"
  by (auto simp: attr_value_first_index parses_def split: option.splits sum.splits)

lemma attr_value_rank: "attr_value P attr a = Inr v \<Longrightarrow> rank_value P attr a = v"
  by (auto simp: attr_value_first_index rank_value_def split: option.splits)


lemma collect_vals_ok:
  "\<forall>n\<in>set ns. parses P attr (attrs_of n) \<Longrightarrow>
     collect_vals P attr attrs_of ns xs vs
       = Inr (xs @ ns, vs @ map (\<lambda>n. rank_value P attr (attrs_of n)) ns)"
proof (induction ns arbitrary: xs vs)
  case Nil
  show ?case by simp
next
  case (Cons n ns)
  then have "parses P attr (attrs_of n)" by simp
  then obtain v where v: "attr_value P attr (attrs_of n) = Inr v"
    using attr_value_parses by blast
  then have "rank_value P attr (attrs_of n) = v" by (rule attr_value_rank)
  then show ?case using v Cons by simp
qed



lemma ranked_pairs:
  fixes rank :: "'n \<Rightarrow> float64"
  assumes "\<forall>n\<in>set ns. rank n \<noteq> NaN"
  shows "mset (map snd (sort_Sort byAttr_Less (zip (map rank ns) ns))) = mset ns"
    and "descending rank (map snd (sort_Sort byAttr_Less (zip (map rank ns) ns)))"
proof -
  let ?ps = "zip (map rank ns) ns"
  let ?S = "sort_Sort byAttr_Less ?ps"
  have m: "mset ?S = mset ?ps" by (rule sort_Sort_mset)
  then have "mset (map snd ?S) = mset (map snd ?ps)"
    by (metis mset_map)
  then show "mset (map snd ?S) = mset ns" by simp
  have "fst p = rank (snd p) \<and> fst p \<noteq> NaN" if "p \<in> set ?ps" for p
    using that assms by (auto simp: set_zip)
  moreover have "set ?S = set ?ps" using m by (metis set_mset_mset)
  ultimately have ps: "\<forall>p\<in>set ?S. fst p = rank (snd p) \<and> fst p \<noteq> NaN" by blast
  have "sorted_wrt (\<lambda>p q. \<not> byAttr_Less q p) ?S"
  proof (rule sort_Sort_sorted [of byAttr_Less "\<lambda>p. fst p \<noteq> NaN"])
    show "\<And>a b :: float64 \<times> 'n. byAttr_Less a b \<Longrightarrow> \<not> byAttr_Less b a"
      by (simp add: byAttr_Less_def fgt_asym)
    show "\<And>a b c :: float64 \<times> 'n. fst a \<noteq> NaN \<Longrightarrow> fst b \<noteq> NaN \<Longrightarrow> fst c \<noteq> NaN
            \<Longrightarrow> \<not> byAttr_Less b a \<Longrightarrow> \<not> byAttr_Less c b \<Longrightarrow> \<not> byAttr_Less c a"
      unfolding byAttr_Less_def by (rule fgt_negtrans)
    show "\<forall>p\<in>set ?ps. fst p \<noteq> NaN"
      using assms by (auto simp: set_zip)
  qed
  then have "sorted_wrt (\<lambda>p q. \<not> fgt (rank (snd q)) (rank (snd p))) ?S"
  proof (rule sorted_wrt_mono_rel [rotated])
    fix p q assume "p \<in> set ?S" "q \<in> set ?S" "\<not> byAttr_Less q p"
    then show "\<not> fgt (rank (snd q)) (rank (snd p))"
      using ps by (metis byAttr_Less_def)
  qed
  then show "descending rank (map snd ?S)"
    by (simp add: descending_def sorted_wrt_map)
qed

lemma NodesByAttribute_ok:
  assumes "\<forall>n\<in>set (Nodes g). parses ParseFloat attr (Attributes (nodeObj M ! n))"
  shows "NodesByAttribute ParseFloat attr g M
    = Inr (map snd (sort_Sort byAttr_Less
        (zip (map (node_rank ParseFloat attr M) (Nodes g)) (Nodes g))))"
  using collect_vals_ok [of "Nodes g" ParseFloat attr "\<lambda>n. Attributes (nodeObj M ! n)" "[]" "[]"]
    assms
  by (simp add: NodesByAttribute_def node_rank_def [abs_def])

lemma EdgesByAttribute_ok:
  assumes "\<forall>e\<in>set (Edges g). parses ParseFloat attr (EdgeAttributes (edgeObj M ! e))"
  shows "EdgesByAttribute ParseFloat attr g M
    = Inr (map snd (sort_Sort byAttr_Less
        (zip (map (edge_rank ParseFloat attr M) (Edges g)) (Edges g))))"
  using collect_vals_ok [of "Edges g" ParseFloat attr "\<lambda>e. EdgeAttributes (edgeObj M ! e)" "[]" "[]"]
    assms
  by (simp add: EdgesByAttribute_def edge_rank_def [abs_def])

lemma NodesByAttribute_ranked:
  assumes "\<forall>n\<in>set (Nodes g). number_valued ParseFloat attr (Attributes (nodeObj M ! n))"
  shows "\<exists>out. NodesByAttribute ParseFloat attr g M = Inr out \<and> mset out = mset (Nodes g) \<and>
           descending (node_rank ParseFloat attr M) out"
proof -
  have "\<forall>n\<in>set (Nodes g). parses ParseFloat attr (Attributes (nodeObj M ! n))"
    using assms by (simp add: number_valued_def)
  moreover have "\<forall>n\<in>set (Nodes g). node_rank ParseFloat attr M n \<noteq> NaN"
    using assms by (simp add: number_valued_def node_rank_def)
  ultimately show ?thesis
    using NodesByAttribute_ok [of g ParseFloat attr M]
      ranked_pairs [of "Nodes g" "node_rank ParseFloat attr M"]
    by simp
qed

lemma EdgesByAttribute_ranked:
  assumes "\<forall>e\<in>set (Edges g). number_valued ParseFloat attr (EdgeAttributes (edgeObj M ! e))"
  shows "\<exists>out. EdgesByAttribute ParseFloat attr g M = Inr out \<and> mset out = mset (Edges g) \<and>
           descending (edge_rank ParseFloat attr M) out"
proof -
  have "\<forall>e\<in>set (Edges g). parses ParseFloat attr (EdgeAttributes (edgeObj M ! e))"
    using assms by (simp add: number_valued_def)
  moreover have "\<forall>e\<in>set (Edges g). edge_rank ParseFloat attr M e \<noteq> NaN"
    using assms by (simp add: number_valued_def edge_rank_def)
  ultimately show ?thesis
    using EdgesByAttribute_ok [of g ParseFloat attr M]
      ranked_pairs [of "Edges g" "edge_rank ParseFloat attr M"]
    by simp
qed

lemma rank_value_absent:
  assumes "attr \<notin> Key ` set a"
  shows "rank_value ParseFloat attr a = Fin 0" and "number_valued ParseFloat attr a"
proof -
  have "first_index a attr = None" using assms by (simp add: first_index_None)
  then show "rank_value ParseFloat attr a = Fin 0" and "number_valued ParseFloat attr a"
    by (simp_all add: rank_value_def number_valued_def parses_def)
qed






section \<open>Claims about the ranking\<close>

text \<open>
  C1 (as amended). When the value of every node for the attribute is a number (the node
  has no pair with the key, or the first value it has for it parses, and not to NaN),
  \<open>NodesByAttribute\<close> returns a list that holds every enumerated node exactly once and is
  in descending order of the parsed values, a node without the attribute ranking as
  0.0. The same holds of \<open>EdgesByAttribute\<close> and the edges.
\<close>

theorem C1_ranked_descending:
  "((\<forall>n\<in>set (Nodes g). number_valued ParseFloat attr (Attributes (nodeObj M ! n))) \<longrightarrow>
      (\<exists>out. NodesByAttribute ParseFloat attr g M = Inr out \<and> mset out = mset (Nodes g) \<and>
         descending (node_rank ParseFloat attr M) out)) \<and>
   ((\<forall>e\<in>set (Edges g). number_valued ParseFloat attr (EdgeAttributes (edgeObj M ! e))) \<longrightarrow>
      (\<exists>out. EdgesByAttribute ParseFloat attr g M = Inr out \<and> mset out = mset (Edges g) \<and>
         descending (edge_rank ParseFloat attr M) out)) \<and>
   (attr \<notin> Key ` set a \<longrightarrow>
      rank_value ParseFloat attr a = Fin 0 \<and> number_valued ParseFloat attr a)"
  using NodesByAttribute_ranked [of g ParseFloat attr M]
    EdgesByAttribute_ranked [of g ParseFloat attr M]
    rank_value_absent [of attr a ParseFloat]
  by blast

theorem C1_ranked_descending_witness:
  "NodesByAttribute ParseFloat_points ''score'' score_graph score_store = Inr [0, 2, 1, 3] \<and>
   EdgesByAttribute ParseFloat_points ''w'' score_graph score_store = Inr [1, 0, 2] \<and>
   (\<exists>out. NodesByAttribute ParseFloat_points ''score'' score_graph score_store = Inr out \<and>
      mset out = mset (Nodes score_graph) \<and>
      descending (node_rank ParseFloat_points ''score'' score_store) out) \<and>
   (\<exists>out. EdgesByAttribute ParseFloat_points ''w'' score_graph score_store = Inr out \<and>
      mset out = mset (Edges score_graph) \<and>
      descending (edge_rank ParseFloat_points ''w'' score_store) out) \<and>
   node_rank ParseFloat_points ''score'' score_store 3 = Fin 0"
proof -
  have hn: "\<forall>n\<in>set (Nodes score_graph).
      number_valued ParseFloat_points ''score'' (Attributes (nodeObj score_store ! n))"
    by code_simp
  have he: "\<forall>e\<in>set (Edges score_graph).
      number_valued ParseFloat_points ''w'' (EdgeAttributes (edgeObj score_store ! e))"
    by code_simp
  have n: "NodesByAttribute ParseFloat_points ''score'' score_graph score_store = Inr [0, 2, 1, 3]"
    by code_simp
  have e: "EdgesByAttribute ParseFloat_points ''w'' score_graph score_store = Inr [1, 0, 2]"
    by code_simp
  have z: "node_rank ParseFloat_points ''score'' score_store 3 = Fin 0"
    by code_simp
  have "\<exists>out. NodesByAttribute ParseFloat_points ''score'' score_graph score_store = Inr out \<and>
      mset out = mset (Nodes score_graph) \<and>
      descending (node_rank ParseFloat_points ''score'' score_store) out"
    using C1_ranked_descending [of score_graph ParseFloat_points "''score''" score_store] hn
    by blast
  moreover have "\<exists>out. EdgesByAttribute ParseFloat_points ''w'' score_graph score_store = Inr out \<and>
      mset out = mset (Edges score_graph) \<and>
      descending (edge_rank ParseFloat_points ''w'' score_store) out"
    using C1_ranked_descending [of score_graph ParseFloat_points "''w''" score_store] he
    by blast
  ultimately show ?thesis using n e z by (intro conjI)
qed

text \<open>
  C1 as stated fails when a value parses to NaN, which compares as neither greater nor
  smaller than anything: with the values 1, NaN, 2 in this enumeration order no
  exchange takes place, and the node with 1 stays before the node with 2.
\<close>

theorem C1_nan_counterexample:
  "NodesByAttribute ParseFloat_points ''score'' nan_graph nan_store = Inr [0, 1, 2] \<and>
   node_rank ParseFloat_points ''score'' nan_store 0 = Fin 1 \<and>
   node_rank ParseFloat_points ''score'' nan_store 2 = Fin 2 \<and>
   fgt (Fin 2) (Fin 1) \<and>
   \<not> descending (node_rank ParseFloat_points ''score'' nan_store) [0, 1, 2]"
  by code_simp



section \<open>Facts about the graph\<close>

lemma ID_edgeObj_update [simp]: "ID (M\<lparr>edgeObj := es\<rparr>) n = ID M n"
  by (simp add: ID_def)

lemma pair_key_commute: "pair_key u v = pair_key v u"
  by (simp add: pair_key_def min.commute max.commute)

lemma EdgeBetween_commute: "EdgeBetween g u v = EdgeBetween g v u"
  by (simp add: EdgeBetween_def UG_Edge_def pair_key_commute [of u v])

lemma fold_max_bounds:
  fixes a :: int
  shows "a \<le> fold max xs a \<and> (\<forall>x\<in>set xs. x \<le> fold max xs a)"
proof (induction xs arbitrary: a)
  case Nil
  show ?case by simp
next
  case (Cons y xs)
  have "max y a \<le> fold max xs (max y a)" "\<forall>x\<in>set xs. x \<le> fold max xs (max y a)"
    using Cons.IH [of "max y a"] by simp_all
  then show ?case by auto
qed

lemma UG_NewNodeID_fresh: "UG_NewNodeID ug \<notin> fst ` set (ug_nodes ug)"
proof
  assume "UG_NewNodeID ug \<in> fst ` set (ug_nodes ug)"
  then have "UG_NewNodeID ug \<in> set (map fst (ug_nodes ug))" by simp
  then have "UG_NewNodeID ug \<le> fold max (map fst (ug_nodes ug)) (- 1)"
    using fold_max_bounds [of "- 1" "map fst (ug_nodes ug)"] by blast
  then show False by (simp add: UG_NewNodeID_def)
qed


lemma NewNode_old_registers:
  "fst (NewNode_old g M) = Inr (length (nodeObj M)) \<and>
   ID (snd (snd (NewNode_old g M))) (length (nodeObj M)) = UG_NewNodeID (UndirectedGraph g) \<and>
   NodeByID g (UG_NewNodeID (UndirectedGraph g)) = None \<and>
   NodeByID (fst (snd (NewNode_old g M))) (UG_NewNodeID (UndirectedGraph g))
     = Some (length (nodeObj M)) \<and>
   Nodes (fst (snd (NewNode_old g M))) = Nodes g @ [length (nodeObj M)]"
proof -
  let ?ug = "UndirectedGraph g"
  have f: "UG_NewNodeID ?ug \<notin> fst ` set (ug_nodes ?ug)"
    by (rule UG_NewNodeID_fresh)
  then have n: "map_of (ug_nodes ?ug) (UG_NewNodeID ?ug) = None"
    by (simp add: map_of_eq_None_iff)
  show ?thesis
    using f n
    by (simp add: NewNode_old_def UG_AddNode_def Let_def NodeByID_def UG_Node_def Nodes_def
        UG_Nodes_def ID_def map_add_def)
qed

lemma length_AList_update:
  "length (AList.update k v al) = (if k \<in> fst ` set al then length al else Suc (length al))"
  by (induction al) auto

lemma set_AList_update: "set (AList.update k v al) \<subseteq> insert (k, v) (set al)"
  by (induction al) auto

lemma NewEdge_existing:
  assumes "EdgeBetween g (ID M a) (ID M b) = Some e"
  shows "NewEdge g M a b = (Inr e, g, M)"
  using assms by (simp add: NewEdge_def EdgeBetween_def)

lemma NewEdge_self:
  assumes "EdgeBetween g (ID M a) (ID M b) = None" "ID M a = ID M b"
  shows "fst (NewEdge g M a b) = Inl SelfEdge" and "fst (snd (NewEdge g M a b)) = g"
  using assms by (simp_all add: NewEdge_def EdgeBetween_def UG_SetEdge_def Let_def)

lemma NewEdge_new:
  assumes none: "EdgeBetween g (ID M a) (ID M b) = None" and ne: "ID M a \<noteq> ID M b"
  defines "g' \<equiv> fst (snd (NewEdge g M a b))"
  shows "fst (NewEdge g M a b) = Inr (length (edgeObj M))"
    and "EdgeBetween g' (ID M a) (ID M b) = Some (length (edgeObj M))"
    and "NodeByID g' (ID M a) = Some a"
    and "NodeByID g' (ID M b) = Some b"
    and "length (Edges g') = length (Edges g) + 1"
    and "snd (snd (NewEdge g M a b))
           = M\<lparr>edgeObj := edgeObj M @ [\<lparr>F = a, T = b, EdgeAttributes = []\<rparr>]\<rparr>"
proof -
  let ?ug = "UndirectedGraph g"
  let ?k = "pair_key (ID M a) (ID M b)"
  let ?e = "length (edgeObj M)"
  have k: "map_of (ug_edges ?ug) ?k = None"
    using none by (simp add: EdgeBetween_def UG_Edge_def)
  then have kn: "?k \<notin> fst ` set (ug_edges ?ug)"
    by (simp add: map_of_eq_None_iff)
  have N: "NewEdge g M a b =
      (Inr ?e,
       g\<lparr>UndirectedGraph :=
           ?ug\<lparr>ug_nodes := AList.update (ID M b) b (AList.update (ID M a) a (ug_nodes ?ug)),
                ug_edges := AList.update ?k ?e (ug_edges ?ug)\<rparr>\<rparr>,
       M\<lparr>edgeObj := edgeObj M @ [\<lparr>F = a, T = b, EdgeAttributes = []\<rparr>]\<rparr>)"
    using k ne by (simp add: NewEdge_def UG_Edge_def UG_SetEdge_def Let_def)
  show "fst (NewEdge g M a b) = Inr ?e" by (simp add: N)
  show "EdgeBetween g' (ID M a) (ID M b) = Some ?e"
    by (simp add: g'_def N EdgeBetween_def UG_Edge_def update_conv')
  show "NodeByID g' (ID M a) = Some a"
    using ne by (simp add: g'_def N NodeByID_def UG_Node_def update_conv')
  show "NodeByID g' (ID M b) = Some b"
    by (simp add: g'_def N NodeByID_def UG_Node_def update_conv')
  show "length (Edges g') = length (Edges g) + 1"
    using kn by (simp add: g'_def N Edges_def UG_Edges_def length_AList_update)
  show "snd (snd (NewEdge g M a b))
           = M\<lparr>edgeObj := edgeObj M @ [\<lparr>F = a, T = b, EdgeAttributes = []\<rparr>]\<rparr>"
    by (simp add: N)
qed

lemma no_self_edge_lookup:
  assumes "no_self_edge g"
  shows "EdgeBetween g i i = None"
proof -
  have "pair_key i i \<notin> fst ` set (ug_edges (UndirectedGraph g))"
    using assms by (auto simp: no_self_edge_def list_all_iff pair_key_def)
  then show ?thesis
    by (simp add: EdgeBetween_def UG_Edge_def map_of_eq_None_iff)
qed

lemma no_self_edge_NewEdge:
  assumes "no_self_edge g"
  shows "no_self_edge (fst (snd (NewEdge g M a b)))"
proof (cases "EdgeBetween g (ID M a) (ID M b)")
  case (Some e)
  then show ?thesis using assms by (simp add: NewEdge_existing)
next
  case None
  show ?thesis
  proof (cases "ID M a = ID M b")
    case True
    then show ?thesis using assms NewEdge_self(2) [OF None] by simp
  next
    case False
    have "fst (pair_key (ID M a) (ID M b)) \<noteq> snd (pair_key (ID M a) (ID M b))"
      using False by (auto simp: pair_key_def min_def max_def)
    then show ?thesis
      using assms None False
        set_AList_update [of "pair_key (ID M a) (ID M b)" "length (edgeObj M)"
          "ug_edges (UndirectedGraph g)"]
      by (auto simp: no_self_edge_def list_all_iff NewEdge_def EdgeBetween_def UG_SetEdge_def
          Let_def)
  qed
qed

section \<open>Claims about adding nodes and edges\<close>

text \<open>
  C3 (as amended). For two nodes with different IDs, registered or not, two calls of
  \<open>NewEdge\<close> in a row return the same edge pointer, which is then the edge the graph
  holds between the two IDs in either order; across both calls the number of edges
  grows by one when the graph held no edge between the two before, and not at all
  when it did.
\<close>

theorem C3_new_edge_twice:
  assumes "ID M a \<noteq> ID M b"
  shows "\<exists>e g2 M2. NewEdge_twice g M a b = (Inr e, Inr e, g2, M2) \<and>
           EdgeBetween g2 (ID M a) (ID M b) = Some e \<and>
           EdgeBetween g2 (ID M b) (ID M a) = Some e \<and>
           length (Edges g2)
             = length (Edges g) + (if EdgeBetween g (ID M a) (ID M b) = None then 1 else 0)"
proof (cases "EdgeBetween g (ID M a) (ID M b)")
  case (Some e)
  then have "NewEdge g M a b = (Inr e, g, M)" by (rule NewEdge_existing)
  then have "NewEdge_twice g M a b = (Inr e, Inr e, g, M)"
    by (simp add: NewEdge_twice_def)
  moreover have "EdgeBetween g (ID M b) (ID M a) = Some e"
    using Some EdgeBetween_commute by simp
  ultimately show ?thesis using Some by simp
next
  case None
  let ?e = "length (edgeObj M)"
  let ?g = "fst (snd (NewEdge g M a b))"
  let ?M = "M\<lparr>edgeObj := edgeObj M @ [\<lparr>F = a, T = b, EdgeAttributes = []\<rparr>]\<rparr>"
  have first: "NewEdge g M a b = (Inr ?e, ?g, ?M)"
    using NewEdge_new(1,6) [OF None assms] by (metis prod.collapse)
  have held: "EdgeBetween ?g (ID M a) (ID M b) = Some ?e"
    using NewEdge_new(2) [OF None assms] .
  then have "EdgeBetween ?g (ID ?M a) (ID ?M b) = Some ?e" by simp
  then have second: "NewEdge ?g ?M a b = (Inr ?e, ?g, ?M)" by (rule NewEdge_existing)
  have "NewEdge_twice g M a b = (Inr ?e, Inr ?e, ?g, ?M)"
    unfolding NewEdge_twice_def by (subst first) (simp add: second)
  moreover have "EdgeBetween ?g (ID M b) (ID M a) = Some ?e"
    using held EdgeBetween_commute by simp
  moreover have "length (Edges ?g) = length (Edges g) + 1"
    using NewEdge_new(5) [OF None assms] .
  ultimately show ?thesis using held None by simp
qed

theorem C3_new_edge_twice_witness:
  "ID score_store 0 \<noteq> ID score_store 2 \<and>
   EdgeBetween score_graph 0 2 = None \<and>
   fst (NewEdge_twice score_graph score_store 0 2) = Inr 3 \<and>
   fst (snd (NewEdge_twice score_graph score_store 0 2)) = Inr 3 \<and>
   length (Edges (fst (snd (snd (NewEdge_twice score_graph score_store 0 2)))))
     = length (Edges score_graph) + 1"
proof -
  have h: "ID score_store 0 \<noteq> ID score_store 2" by code_simp
  have i: "ID score_store 0 = 0" "ID score_store 2 = 2" by code_simp+
  have n: "EdgeBetween score_graph 0 2 = None" by code_simp
  have r: "fst (NewEdge_twice score_graph score_store 0 2) = Inr 3" by code_simp
  obtain e g2 M2 where t: "NewEdge_twice score_graph score_store 0 2 = (Inr e, Inr e, g2, M2)"
    "length (Edges g2) = length (Edges score_graph)
       + (if EdgeBetween score_graph (ID score_store 0) (ID score_store 2) = None then 1 else 0)"
    using C3_new_edge_twice [OF h, of score_graph] by blast
  have "e = 3" using r t(1) by simp
  then show ?thesis using h n t i by simp
qed

text \<open>
  C3 as stated fails for two registered nodes that are already joined: both calls
  return the edge the graph holds, and the number of edges does not change.
\<close>

theorem C3_existing_edge_counterexample:
  "NodeByID abcd_graph (ID abcd_store 0) = Some 0 \<and>
   NodeByID abcd_graph (ID abcd_store 1) = Some 1 \<and>
   ID abcd_store 0 \<noteq> ID abcd_store 1 \<and>
   fst (NewEdge_twice abcd_graph abcd_store 0 1) = Inr 0 \<and>
   fst (snd (NewEdge_twice abcd_graph abcd_store 0 1)) = Inr 0 \<and>
   length (Edges (fst (snd (snd (NewEdge_twice abcd_graph abcd_store 0 1)))))
     = length (Edges abcd_graph)"
  by code_simp

text \<open>
  C6 (as amended). \<open>NewEdge\<close> has no error result. Called with both ends of the same ID
  (a node with itself) on a graph that holds no edge there, it fails with the
  self-edge panic of \<^verbatim>\<open>SetEdge\<close> and leaves the graph as it was; a graph built by
  \<open>NewEdge\<close> never holds such an edge. An end that is not registered is not an error:
  for two different IDs with no edge between them the call succeeds, registers both
  ends and adds the edge.
\<close>

theorem C6_new_edge_failures:
  "(ID M a = ID M b \<and> EdgeBetween g (ID M a) (ID M b) = None \<longrightarrow>
      fst (NewEdge g M a b) = Inl SelfEdge \<and> fst (snd (NewEdge g M a b)) = g) \<and>
   (ID M a \<noteq> ID M b \<and> EdgeBetween g (ID M a) (ID M b) = None \<longrightarrow>
      fst (NewEdge g M a b) = Inr (length (edgeObj M)) \<and>
      EdgeBetween (fst (snd (NewEdge g M a b))) (ID M a) (ID M b) = Some (length (edgeObj M)) \<and>
      NodeByID (fst (snd (NewEdge g M a b))) (ID M a) = Some a \<and>
      NodeByID (fst (snd (NewEdge g M a b))) (ID M b) = Some b \<and>
      length (Edges (fst (snd (NewEdge g M a b)))) = length (Edges g) + 1) \<and>
   (no_self_edge g \<longrightarrow>
      EdgeBetween g (ID M a) (ID M a) = None \<and> no_self_edge (fst (snd (NewEdge g M a b))))"
  using NewEdge_self [of g M a b] NewEdge_new(1-5) [of g M a b]
    no_self_edge_lookup [of g "ID M a"] no_self_edge_NewEdge [of g M a b]
  by blast

theorem C6_new_edge_failures_witness:
  "fst (NewEdge abcd_graph abcd_store 1 1) = Inl SelfEdge \<and>
   fst (snd (NewEdge abcd_graph abcd_store 1 1)) = abcd_graph \<and>
   no_self_edge abcd_graph \<and>
   NodeByID score_graph 0 = Some 0 \<and>
   fst (NewEdge score_graph score_store 0 3) = Inr 3 \<and>
   length (Edges (fst (snd (NewEdge score_graph score_store 0 3)))) = 4"
proof -
  have s: "no_self_edge abcd_graph" by code_simp
  have i: "ID abcd_store 1 = 1" "ID score_store 0 = 0" "ID score_store 3 = 3" by code_simp+
  have n: "EdgeBetween score_graph 0 3 = None" "NodeByID score_graph 0 = Some 0"
    "length (edgeObj score_store) = 3" "length (Edges score_graph) = 3"
    by code_simp+
  have "EdgeBetween abcd_graph (ID abcd_store 1) (ID abcd_store 1) = None"
    using C6_new_edge_failures [of abcd_store 1 1 abcd_graph] s by blast
  then have "fst (NewEdge abcd_graph abcd_store 1 1) = Inl SelfEdge \<and>
      fst (snd (NewEdge abcd_graph abcd_store 1 1)) = abcd_graph"
    using C6_new_edge_failures [of abcd_store 1 1 abcd_graph] by blast
  moreover have "fst (NewEdge score_graph score_store 0 3) = Inr (length (edgeObj score_store)) \<and>
      length (Edges (fst (snd (NewEdge score_graph score_store 0 3))))
        = length (Edges score_graph) + 1"
    using C6_new_edge_failures [of score_store 0 3 score_graph] n(1) i by simp
  ultimately show ?thesis using s n by simp
qed

text \<open>
  C6 as stated fails for ends that are not registered: on the empty graph, with two
  node objects of the IDs 2 and 3 that the graph does not hold, \<open>NewEdge\<close> returns a new
  edge, and the graph then holds the edge and both nodes.
\<close>

theorem C6_unregistered_counterexample:
  "NodeByID empty_graph (ID abcd_store 2) = None \<and>
   NodeByID empty_graph (ID abcd_store 3) = None \<and>
   fst (NewEdge empty_graph abcd_store 2 3) = Inr 5 \<and>
   Edges (fst (snd (NewEdge empty_graph abcd_store 2 3))) = [5] \<and>
   Nodes (fst (snd (NewEdge empty_graph abcd_store 2 3))) = [2, 3]"
  by code_simp


text \<open>
  The oldest file's \<open>NewNode\<close> (src/graph.go) does what C7 says: the ID is not in use
  before the call, and afterwards the lookup of the ID finds the returned node, which
  is the last of the enumeration.
\<close>

lemma NewNode_old_adds_node:
  "fst (NewNode_old g M) = Inr (length (nodeObj M)) \<and>
   NodeByID g (ID (snd (snd (NewNode_old g M))) (length (nodeObj M))) = None \<and>
   NodeByID (fst (snd (NewNode_old g M))) (ID (snd (snd (NewNode_old g M))) (length (nodeObj M)))
     = Some (length (nodeObj M)) \<and>
   length (nodeObj M) \<in> set (Nodes (fst (snd (NewNode_old g M))))"
  using NewNode_old_registers [of g M] by simp

end
